theory Spec2Isabelle
  imports Complex_Main "HOL-Library.Word"
begin

section \<open>Results and decoded frames\<close>

text \<open>
  The embedding follows \<^verbatim>\<open>olcPGEX_Media.h\<close>. \<^verbatim>\<open>Media::Result\<close> is the
  two-valued enum every fallible member function returns.
\<close>

datatype Result = Success | Error

text \<open>
  Of an \<^verbatim>\<open>AVFrame\<close> the code reads \<^verbatim>\<open>best_effort_timestamp\<close> (64-bit
  signed), \<^verbatim>\<open>pkt_size\<close> and the picture data, which is opaque here (a number
  naming the picture). \<^verbatim>\<open>av_frame_alloc\<close> and \<^verbatim>\<open>av_frame_unref\<close> leave
  the library's defaults: no timestamp and \<^verbatim>\<open>pkt_size = -1\<close>, which is what the
  decode loops test to recognise an empty frame.
\<close>

record AVFrame =
  best_effort_timestamp :: int
  pkt_size :: int
  picture :: nat

definition AV_NOPTS_VALUE :: int where
  "AV_NOPTS_VALUE = - (2 ^ 63)"

definition av_frame_unref :: "AVFrame \<Rightarrow> AVFrame" where
  "av_frame_unref f =
     \<lparr>best_effort_timestamp = AV_NOPTS_VALUE, pkt_size = - 1, picture = 0\<rparr>"

definition av_frame_alloc :: AVFrame where
  "av_frame_alloc =
     \<lparr>best_effort_timestamp = AV_NOPTS_VALUE, pkt_size = - 1, picture = 0\<rparr>"

section \<open>VideoQueue: the circular buffer of decoded video frames\<close>

text \<open>
  The four counters are \<^verbatim>\<open>uint16_t\<close>. \<^verbatim>\<open>_data\<close> is the array of slots; the
  null pointer is the empty list (\<^verbatim>\<open>init\<close> never allocates an array of fewer than
  two slots). The mutex is not modelled: every member function runs as one atomic step.
\<close>

record VideoQueue =
  q_size :: "16 word"
  q_capacity :: "16 word"
  q_insert_idx :: "16 word"
  q_delete_idx :: "16 word"
  q_data :: "AVFrame list"

definition VideoQueue_new :: VideoQueue where
  "VideoQueue_new =
     \<lparr>q_size = 0, q_capacity = 0, q_insert_idx = 0, q_delete_idx = 0, q_data = []\<rparr>"

definition VideoQueue_clear :: "VideoQueue \<Rightarrow> VideoQueue" where
  "VideoQueue_clear q =
     (if q_data q \<noteq> []
      then q\<lparr>q_data := map av_frame_unref (q_data q),
             q_size := 0, q_insert_idx := 0, q_delete_idx := 0\<rparr>
      else q)"

definition VideoQueue_free :: "VideoQueue \<Rightarrow> VideoQueue" where
  "VideoQueue_free q =
     (if q_data q \<noteq> []
      then q\<lparr>q_data := [], q_size := 0, q_insert_idx := 0, q_delete_idx := 0\<rparr>
      else q)"

text \<open>
  \<^verbatim>\<open>init(capacity)\<close>. Whether the library can allocate the frames is an input
  (\<open>alloc_ok\<close>); after a failed allocation the slots are left out of the model.
\<close>

definition VideoQueue_init :: "bool \<Rightarrow> 16 word \<Rightarrow> VideoQueue \<Rightarrow> Result \<times> VideoQueue" where
  "VideoQueue_init alloc_ok capacity q =
     (let q1 = q\<lparr>q_size := 0, q_insert_idx := 0, q_delete_idx := 0\<rparr>;
          q2 = (if q_data q1 \<noteq> [] then VideoQueue_free (VideoQueue_clear q1) else q1)
      in if capacity \<le> 1 then (Error, q2)
         else if \<not> alloc_ok then (Error, q2\<lparr>q_capacity := capacity\<rparr>)
         else (Success,
               q2\<lparr>q_capacity := capacity,
                   q_data := replicate (unat capacity) av_frame_alloc\<rparr>))"

definition VideoQueue_back :: "VideoQueue \<Rightarrow> AVFrame" where
  "VideoQueue_back q = q_data q ! unat (q_insert_idx q)"

definition VideoQueue_front :: "VideoQueue \<Rightarrow> AVFrame" where
  "VideoQueue_front q = q_data q ! unat (q_delete_idx q)"

text \<open>
  In \<^verbatim>\<open>(_insert_idx + 1) % _capacity\<close> the operands are promoted to \<^verbatim>\<open>int\<close>,
  so the sum does not wrap; the result is stored back into 16 bits. \<^verbatim>\<open>++_size\<close>
  and \<^verbatim>\<open>--_size\<close> wrap. \<^verbatim>\<open>push\<close> has no test of its own.
\<close>

definition VideoQueue_push :: "VideoQueue \<Rightarrow> VideoQueue" where
  "VideoQueue_push q =
     q\<lparr>q_insert_idx := of_nat ((unat (q_insert_idx q) + 1) mod unat (q_capacity q)),
       q_size := q_size q + 1\<rparr>"

definition VideoQueue_pop :: "VideoQueue \<Rightarrow> VideoQueue" where
  "VideoQueue_pop q =
     (if q_size q > 0
      then q\<lparr>q_data := (q_data q)[unat (q_delete_idx q) :=
                          av_frame_unref (q_data q ! unat (q_delete_idx q))],
             q_delete_idx := of_nat ((unat (q_delete_idx q) + 1) mod unat (q_capacity q)),
             q_size := q_size q - 1\<rparr>
      else q)"

definition VideoQueue_size :: "VideoQueue \<Rightarrow> nat" where
  "VideoQueue_size q = unat (q_size q)"

definition VideoQueue_capacity :: "VideoQueue \<Rightarrow> nat" where
  "VideoQueue_capacity q = unat (q_capacity q)"

text \<open>
  The frames a queue holds, oldest first: \<^verbatim>\<open>_size\<close> slots from the deletion cursor
  on, around the ring. A queue is in order when it has at least two slots, both cursors
  are inside the array, it holds no more frames than slots, and the insertion cursor is
  \<^verbatim>\<open>_size\<close> slots after the deletion cursor.
\<close>

definition VideoQueue_contents :: "VideoQueue \<Rightarrow> AVFrame list" where
  "VideoQueue_contents q =
     map (\<lambda>k. q_data q ! ((unat (q_delete_idx q) + k) mod unat (q_capacity q)))
       [0..<unat (q_size q)]"

definition VideoQueue_ok :: "VideoQueue \<Rightarrow> bool" where
  "VideoQueue_ok q =
     (2 \<le> unat (q_capacity q) \<and> length (q_data q) = unat (q_capacity q) \<and>
      unat (q_delete_idx q) < unat (q_capacity q) \<and>
      unat (q_size q) \<le> unat (q_capacity q) \<and>
      unat (q_insert_idx q) = (unat (q_delete_idx q) + unat (q_size q)) mod unat (q_capacity q))"

text \<open>Sequences of queue operations, for statements about every sequence.\<close>

datatype vq_op = Push | Pop

fun vq_step :: "vq_op \<Rightarrow> VideoQueue \<Rightarrow> VideoQueue" where
  "vq_step Push q = VideoQueue_push q"
| "vq_step Pop q = VideoQueue_pop q"

fun vq_run :: "vq_op list \<Rightarrow> VideoQueue \<Rightarrow> VideoQueue" where
  "vq_run [] q = q"
| "vq_run (x # xs) q = vq_run xs (vq_step x q)"

text \<open>
  A sequence respects the caller's obligation when every \<^verbatim>\<open>push\<close> in it is issued
  while the queue is not full.
\<close>

fun push_has_room :: "vq_op list \<Rightarrow> VideoQueue \<Rightarrow> bool" where
  "push_has_room [] q = True"
| "push_has_room (Push # xs) q =
     (VideoQueue_size q < VideoQueue_capacity q \<and> push_has_room xs (VideoQueue_push q))"
| "push_has_room (Pop # xs) q = push_has_room xs (VideoQueue_pop q)"

section \<open>Audio sample formats\<close>

text \<open>
  \<^verbatim>\<open>AVSampleFormat\<close> as the library declares it, the setting
  \<^verbatim>\<open>Media::AudioFormat\<close>, and \<^verbatim>\<open>ChooseAudioFormat\<close>, which returns the
  result together with the values it stores in \<^verbatim>\<open>audio_format\<close> and
  \<^verbatim>\<open>audio_sample_size\<close>. The outer \<^verbatim>\<open>default\<close> branch (an enum value outside
  the five declared ones) has no counterpart in the datatype.
\<close>

datatype AVSampleFormat =
    AV_SAMPLE_FMT_NONE
  | AV_SAMPLE_FMT_U8
  | AV_SAMPLE_FMT_S16
  | AV_SAMPLE_FMT_S32
  | AV_SAMPLE_FMT_FLT
  | AV_SAMPLE_FMT_DBL
  | AV_SAMPLE_FMT_U8P
  | AV_SAMPLE_FMT_S16P
  | AV_SAMPLE_FMT_S32P
  | AV_SAMPLE_FMT_FLTP
  | AV_SAMPLE_FMT_DBLP
  | AV_SAMPLE_FMT_S64
  | AV_SAMPLE_FMT_S64P

datatype AudioFormat = Default | U8 | S16 | S32 | F32

fun av_sample_fmt_is_planar :: "AVSampleFormat \<Rightarrow> bool" where
  "av_sample_fmt_is_planar AV_SAMPLE_FMT_U8P = True"
| "av_sample_fmt_is_planar AV_SAMPLE_FMT_S16P = True"
| "av_sample_fmt_is_planar AV_SAMPLE_FMT_S32P = True"
| "av_sample_fmt_is_planar AV_SAMPLE_FMT_FLTP = True"
| "av_sample_fmt_is_planar AV_SAMPLE_FMT_DBLP = True"
| "av_sample_fmt_is_planar AV_SAMPLE_FMT_S64P = True"
| "av_sample_fmt_is_planar _ = False"

fun ChooseAudioFormat :: "AudioFormat \<Rightarrow> AVSampleFormat \<Rightarrow> Result \<times> AVSampleFormat \<times> nat" where
  "ChooseAudioFormat Default AV_SAMPLE_FMT_U8 = (Success, AV_SAMPLE_FMT_U8, 1)"
| "ChooseAudioFormat Default AV_SAMPLE_FMT_U8P = (Success, AV_SAMPLE_FMT_U8, 1)"
| "ChooseAudioFormat Default AV_SAMPLE_FMT_S16 = (Success, AV_SAMPLE_FMT_S16, 2)"
| "ChooseAudioFormat Default AV_SAMPLE_FMT_S16P = (Success, AV_SAMPLE_FMT_S16, 2)"
| "ChooseAudioFormat Default AV_SAMPLE_FMT_S32 = (Success, AV_SAMPLE_FMT_S32, 4)"
| "ChooseAudioFormat Default AV_SAMPLE_FMT_S32P = (Success, AV_SAMPLE_FMT_S32, 4)"
| "ChooseAudioFormat Default AV_SAMPLE_FMT_FLT = (Success, AV_SAMPLE_FMT_FLT, 4)"
| "ChooseAudioFormat Default AV_SAMPLE_FMT_FLTP = (Success, AV_SAMPLE_FMT_FLT, 4)"
| "ChooseAudioFormat Default _ = (Success, AV_SAMPLE_FMT_FLT, 4)"
| "ChooseAudioFormat U8 _ = (Success, AV_SAMPLE_FMT_U8, 1)"
| "ChooseAudioFormat S16 _ = (Success, AV_SAMPLE_FMT_S16, 2)"
| "ChooseAudioFormat S32 _ = (Success, AV_SAMPLE_FMT_S32, 4)"
| "ChooseAudioFormat F32 _ = (Success, AV_SAMPLE_FMT_FLT, 4)"

section \<open>AudioQueue: the FIFO of converted audio samples\<close>

text \<open>
  \<^verbatim>\<open>AudioQueue\<close> wraps the library's \<^verbatim>\<open>AVAudioFifo\<close>, whose code is not part
  of the repository; the model follows the contract of \<^verbatim>\<open>libavutil/audio_fifo.h\<close>.
  The FIFO holds \<^verbatim>\<open>nb_samples\<close> samples (here the list itself, oldest first; a
  sample is opaque, a number) out of \<^verbatim>\<open>allocated_samples\<close>.
  \<^verbatim>\<open>av_audio_fifo_write\<close> reallocates to twice the needed size when the data does
  not fit; the reallocation is taken to succeed (memory does not run out), so the only
  failure left is the library's overflow test. \<^verbatim>\<open>av_audio_fifo_drain\<close> and
  \<^verbatim>\<open>av_audio_fifo_read\<close> clamp the count to what is stored.
\<close>

record AVAudioFifo =
  af_samples :: "nat list"
  allocated_samples :: int

definition INT_MAX :: int where
  "INT_MAX = 2 ^ 31 - 1"

definition AVERROR_EINVAL :: int where
  "AVERROR_EINVAL = - 22"

definition av_audio_fifo_size :: "AVAudioFifo \<Rightarrow> int" where
  "av_audio_fifo_size af = int (length (af_samples af))"

definition av_audio_fifo_space :: "AVAudioFifo \<Rightarrow> int" where
  "av_audio_fifo_space af = allocated_samples af - int (length (af_samples af))"

definition av_audio_fifo_drain :: "AVAudioFifo \<Rightarrow> int \<Rightarrow> int \<times> AVAudioFifo" where
  "av_audio_fifo_drain af nb_samples =
     (if nb_samples < 0 then (AVERROR_EINVAL, af)
      else (0, af\<lparr>af_samples :=
                    drop (nat (min nb_samples (av_audio_fifo_size af))) (af_samples af)\<rparr>))"

definition av_audio_fifo_write :: "AVAudioFifo \<Rightarrow> nat list \<Rightarrow> int \<times> AVAudioFifo" where
  "av_audio_fifo_write af data =
     (let nb_samples = int (length data)
      in if av_audio_fifo_space af < nb_samples
         then (if INT_MAX div 2 - av_audio_fifo_size af < nb_samples
               then (AVERROR_EINVAL, af)
               else (nb_samples,
                     af\<lparr>allocated_samples := 2 * (av_audio_fifo_size af + nb_samples),
                        af_samples := af_samples af @ data\<rparr>))
         else (nb_samples, af\<lparr>af_samples := af_samples af @ data\<rparr>))"

definition av_audio_fifo_read :: "AVAudioFifo \<Rightarrow> int \<Rightarrow> int \<times> nat list \<times> AVAudioFifo" where
  "av_audio_fifo_read af nb_samples =
     (if nb_samples < 0 then (AVERROR_EINVAL, [], af)
      else let n = nat (min nb_samples (av_audio_fifo_size af))
           in (int n, take n (af_samples af), af\<lparr>af_samples := drop n (af_samples af)\<rparr>))"

definition av_audio_fifo_alloc :: "bool \<Rightarrow> AVSampleFormat \<Rightarrow> int \<Rightarrow> int \<Rightarrow> AVAudioFifo option" where
  "av_audio_fifo_alloc alloc_ok sample_fmt channels nb_samples =
     (if sample_fmt = AV_SAMPLE_FMT_NONE \<or> nb_samples \<le> 0 \<or> channels \<le> 0 \<or> \<not> alloc_ok
      then None
      else Some \<lparr>af_samples = [], allocated_samples = nb_samples\<rparr>)"

text \<open>
  The member \<^verbatim>\<open>_fifo\<close> is a pointer: \<open>None\<close> is the null pointer. The member
  functions other than \<^verbatim>\<open>clear\<close> and \<^verbatim>\<open>free\<close> dereference it without a
  test; the code calls them on an initialised queue only, and on \<open>None\<close> the model
  leaves the queue as it is and returns the library's error code (sizes 0).
\<close>

type_synonym AudioQueue = "AVAudioFifo option"

definition AudioQueue_clear :: "AudioQueue \<Rightarrow> AudioQueue" where
  "AudioQueue_clear q =
     (case q of None \<Rightarrow> None
      | Some af \<Rightarrow> Some (snd (av_audio_fifo_drain af (av_audio_fifo_size af))))"

definition AudioQueue_free :: "AudioQueue \<Rightarrow> AudioQueue" where
  "AudioQueue_free q = None"

definition AudioQueue_init ::
  "bool \<Rightarrow> AVSampleFormat \<Rightarrow> int \<Rightarrow> int \<Rightarrow> AudioQueue \<Rightarrow> Result \<times> AudioQueue" where
  "AudioQueue_init alloc_ok format channels capacity q =
     (if capacity = 0 \<or> channels = 0 then (Error, q)
      else let q1 = (if q \<noteq> None then AudioQueue_free (AudioQueue_clear q) else q);
               q2 = av_audio_fifo_alloc alloc_ok format channels capacity
           in if q2 = None then (Error, q2) else (Success, q2))"

definition AudioQueue_push :: "nat list \<Rightarrow> AudioQueue \<Rightarrow> int \<times> AudioQueue" where
  "AudioQueue_push data q =
     (case q of None \<Rightarrow> (AVERROR_EINVAL, None)
      | Some af \<Rightarrow>
          let samples = int (length data);
              space = av_audio_fifo_space af;
              af1 = (if samples > space
                     then snd (av_audio_fifo_drain af (min (av_audio_fifo_size af) (samples - space)))
                     else af);
              (written, af2) = av_audio_fifo_write af1 data
          in (written, Some af2))"

definition AudioQueue_pop :: "int \<Rightarrow> AudioQueue \<Rightarrow> int \<times> nat list \<times> AudioQueue" where
  "AudioQueue_pop samples q =
     (case q of None \<Rightarrow> (AVERROR_EINVAL, [], None)
      | Some af \<Rightarrow>
          let (n, out, af1) = av_audio_fifo_read af samples in (n, out, Some af1))"

definition AudioQueue_drain :: "int \<Rightarrow> AudioQueue \<Rightarrow> AudioQueue" where
  "AudioQueue_drain samples q =
     (case q of None \<Rightarrow> None | Some af \<Rightarrow> Some (snd (av_audio_fifo_drain af samples)))"

definition AudioQueue_size :: "AudioQueue \<Rightarrow> int" where
  "AudioQueue_size q = (case q of None \<Rightarrow> 0 | Some af \<Rightarrow> av_audio_fifo_size af)"

definition AudioQueue_capacity :: "AudioQueue \<Rightarrow> int" where
  "AudioQueue_capacity q =
     (case q of None \<Rightarrow> 0 | Some af \<Rightarrow> av_audio_fifo_space af + av_audio_fifo_size af)"

text \<open>The samples a queue holds, oldest first.\<close>

definition AudioQueue_contents :: "AudioQueue \<Rightarrow> nat list" where
  "AudioQueue_contents q = (case q of None \<Rightarrow> [] | Some af \<Rightarrow> af_samples af)"

text \<open>
  An initialised queue never holds more than is allocated. The queue of the scenario:
  1000 samples of two-channel 32-bit float.
\<close>

definition AudioQueue_ok :: "AudioQueue \<Rightarrow> bool" where
  "AudioQueue_ok q =
     (case q of None \<Rightarrow> False
      | Some af \<Rightarrow> int (length (af_samples af)) \<le> allocated_samples af)"

definition aq1000 :: AudioQueue where
  "aq1000 = snd (AudioQueue_init True AV_SAMPLE_FMT_FLT 2 1000 None)"

definition aq4 :: AudioQueue where
  "aq4 = snd (AudioQueue_push [1, 2] (snd (AudioQueue_init True AV_SAMPLE_FMT_FLT 2 4 None)))"

definition aq600 :: AudioQueue where
  "aq600 = snd (AudioQueue_push [0..<600] aq1000)"

section \<open>The demuxer, the decoders and the resampler as inputs\<close>

text \<open>
  Demuxing, decoding and resampling are library calls. What they deliver is an input of
  the model: the demuxer is the list of packets \<^verbatim>\<open>av_read_frame\<close> will still
  return (at the end of the list it reports end of file or an error, which the code
  does not tell apart), and a packet carries what the decoder answers for it.

  For a video packet: \<^verbatim>\<open>avcodec_send_packet\<close> fails, or
  \<^verbatim>\<open>avcodec_receive_frame\<close> fails with an error other than EOF/EAGAIN, or the
  slot handed to the decoder ends up holding a frame (with EOF/EAGAIN the slot is left
  unreferenced, that is \<^verbatim>\<open>pkt_size = -1\<close>).

  For an audio packet: whether sending succeeded (EAGAIN counts as success), the frames
  received one after the other, and whether the response that ends the receive loop is
  EOF/EAGAIN. For each received frame the resampler's output is given too: the result of
  \<^verbatim>\<open>swr_convert_frame\<close> on the frame (\<open>None\<close> if it fails) and of each further
  call that flushes the resampler while \<^verbatim>\<open>swr_get_delay\<close> is positive.
\<close>

datatype video_decode = SendFailed | ReceiveFailed | Received AVFrame

record audio_block =
  ab_frame :: AVFrame
  ab_converted :: "nat list option"
  ab_flushed :: "nat list option list"

datatype packet =
    VideoPacket video_decode
  | AudioPacket bool "audio_block list" bool
  | OtherPacket

section \<open>Floating-point and integer arithmetic\<close>

text \<open>
  Times are \<^verbatim>\<open>double\<close> values in the code, and \<^verbatim>\<open>float\<close> values for
  \<^verbatim>\<open>delta_time_accumulator\<close> and for the argument of
  \<^verbatim>\<open>GetVideoFrame(float)\<close>. The two types are the type parameters \<open>'f\<close> and
  \<open>'d\<close> of the model, and the operations the code applies to their values are the
  fields of a record that every function computing with times takes as its first
  argument: the \<^verbatim>\<open>float\<close> addition of
  \<^verbatim>\<open>delta_time_accumulator += delta_time\<close>, the conversions between
  \<^verbatim>\<open>float\<close> and \<^verbatim>\<open>double\<close> in both directions, the conversion
  \<^verbatim>\<open>double(n)\<close> of an integer, the division and the multiplication of
  \<^verbatim>\<open>double\<close>, and the conversion \<^verbatim>\<open>size_t(x)\<close>. Nothing is assumed of
  these operations, so what holds for every such record holds for the rounding
  operations of the machine. The comparisons \<^verbatim>\<open><\<close> and \<^verbatim>\<open><=\<close> of
  \<^verbatim>\<open>double\<close> are those of the class \<open>ord\<close>, of which nothing is assumed
  either (with a NaN both are false).
\<close>

record ('f, 'd) arith =
  float_add :: "'f \<Rightarrow> 'f \<Rightarrow> 'f"
  double_of_float :: "'f \<Rightarrow> 'd"
  float_of_double :: "'d \<Rightarrow> 'f"
  double_of_int :: "int \<Rightarrow> 'd"
  double_div :: "'d \<Rightarrow> 'd \<Rightarrow> 'd"
  double_mul :: "'d \<Rightarrow> 'd \<Rightarrow> 'd"
  size_t_of_double :: "'d \<Rightarrow> nat"

text \<open>
  The product \<^verbatim>\<open>best_effort_timestamp * time_base.num\<close> is computed in
  \<^verbatim>\<open>int64_t\<close>; the value is the two's-complement one, which wraps around.
\<close>

definition int64_mul :: "int \<Rightarrow> int \<Rightarrow> int" where
  "int64_mul a b = sint (word_of_int a * word_of_int b :: 64 word)"

text \<open>
  The operations where the machine computes them without rounding: on small integers
  and on fractions with a power of two as denominator, sums, products and quotients are
  exact in \<^verbatim>\<open>float\<close> and in \<^verbatim>\<open>double\<close>, the conversions between the two
  types change nothing, and the conversion of a non-negative number to
  \<^verbatim>\<open>size_t\<close> cuts off the fraction. The concrete runs below use such values
  only.
\<close>

definition exact_arith :: "(real, real) arith" where
  "exact_arith =
     \<lparr>float_add = (\<lambda>x y. x + y), double_of_float = (\<lambda>x. x), float_of_double = (\<lambda>x. x),
      double_of_int = real_of_int, double_div = (\<lambda>x y. x / y),
      double_mul = (\<lambda>x y. x * y), size_t_of_double = (\<lambda>x. nat \<lfloor>x\<rfloor>)\<rparr>"

section \<open>The Media object\<close>

text \<open>
  The private state of \<^verbatim>\<open>Media\<close>, as far as the modelled functions read or write
  it. The effects on collaborators are recorded in the state: \<open>frame_loader\<close> says
  that a decoding thread is started and not joined, \<open>video_flushes\<close> and
  \<open>audio_flushes\<close> count the calls of \<^verbatim>\<open>avcodec_flush_buffers\<close>,
  \<open>audio_device_started\<close> follows \<^verbatim>\<open>ma_device_start\<close> and
  \<^verbatim>\<open>ma_device_stop\<close>, \<open>video_frame_created\<close> says that
  \<^verbatim>\<open>video_frame.Create\<close> has been called, so that the \<^verbatim>\<open>olc::Renderable\<close>
  holds a decal, and \<open>video_frame\<close> is the picture it shows.
  \<^verbatim>\<open>conditional.notify_one()\<close> only wakes the decoding thread and leaves no trace in
  the state.
\<close>

record ('f, 'd) Media =
  demux :: "packet list"
  is_paused :: bool
  finished_reading :: bool
  keep_loading :: bool
  frame_loader :: bool
  video_time_base :: "int \<times> int"
  video_fifo :: VideoQueue
  video_flushes :: nat
  video_frame_created :: bool
  video_frame :: nat
  delta_time_accumulator :: 'f
  last_video_pts :: 'd
  video_opened :: bool
  attached_pic :: bool
  audio_time_base :: "int \<times> int"
  audio_fifo :: AudioQueue
  audio_flushes :: nat
  audio_frames_consumed :: nat
  audio_time :: 'd
  audio_sample_rate :: int
  audio_opened :: bool
  audio_device_started :: bool

text \<open>
  A \<^verbatim>\<open>Media\<close> object as its constructor leaves it. \<^verbatim>\<open>is_paused\<close> and the two
  time bases have no initialiser in the class, so their values are parameters. The
  \<^verbatim>\<open>olc::Renderable\<close> is default-constructed: it holds no decal yet.
\<close>

definition Media_new :: "bool \<Rightarrow> int \<times> int \<Rightarrow> int \<times> int \<Rightarrow> ('f::zero, 'd::zero) Media" where
  "Media_new paused vtb atb =
     \<lparr>demux = [], is_paused = paused, finished_reading = False, keep_loading = True,
      frame_loader = False, video_time_base = vtb, video_fifo = VideoQueue_new,
      video_flushes = 0, video_frame_created = False, video_frame = 0,
      delta_time_accumulator = 0, last_video_pts = 0,
      video_opened = False, attached_pic = False, audio_time_base = atb,
      audio_fifo = None, audio_flushes = 0, audio_frames_consumed = 0, audio_time = 0,
      audio_sample_rate = 0, audio_opened = False, audio_device_started = False\<rparr>"

definition IsVideoOpened :: "('f, 'd) Media \<Rightarrow> bool" where
  "IsVideoOpened s = video_opened s"

definition IsAudioOpened :: "('f, 'd) Media \<Rightarrow> bool" where
  "IsAudioOpened s = audio_opened s"

definition IsPaused :: "('f, 'd) Media \<Rightarrow> bool" where
  "IsPaused s = is_paused s"

definition HasAlbumArt :: "('f, 'd) Media \<Rightarrow> bool" where
  "HasAlbumArt s = attached_pic s"

definition FinishedReading :: "('f, 'd) Media \<Rightarrow> bool" where
  "FinishedReading s =
     (if IsVideoOpened s = False \<and> IsAudioOpened s = False then False
      else if finished_reading s
      then (let video_finished = (if IsVideoOpened s \<and> VideoQueue_size (video_fifo s) > 0
                                  then False else True);
                audio_finished = (if IsAudioOpened s \<and> AudioQueue_size (audio_fifo s) > 0
                                  then False else True)
            in video_finished \<and> audio_finished)
      else False)"

definition Pause :: "('f, 'd) Media \<Rightarrow> ('f, 'd) Media" where
  "Pause s =
     (if (IsAudioOpened s \<or> IsVideoOpened s) = False then s
      else if IsPaused s then s
      else (if IsAudioOpened s then s\<lparr>audio_device_started := False\<rparr> else s)
             \<lparr>is_paused := True\<rparr>)"

definition Play :: "('f, 'd) Media \<Rightarrow> ('f, 'd) Media" where
  "Play s =
     (if (IsAudioOpened s \<or> IsVideoOpened s) = False then s
      else if IsPaused s = False then s
      else (if IsAudioOpened s then s\<lparr>audio_device_started := True\<rparr> else s)
             \<lparr>is_paused := False\<rparr>)"

text \<open>
  Starting and stopping the decoding thread. \<^verbatim>\<open>StopDecodingThread\<close> joins the
  thread; the thread itself sets \<^verbatim>\<open>finished_reading\<close> when it leaves its loop.
\<close>

definition StartDecodingThread :: "('f, 'd) Media \<Rightarrow> ('f, 'd) Media" where
  "StartDecodingThread s =
     s\<lparr>keep_loading := True, finished_reading := False, frame_loader := True\<rparr>"

definition StopDecodingThread :: "('f, 'd) Media \<Rightarrow> ('f, 'd) Media" where
  "StopDecodingThread s =
     s\<lparr>keep_loading := False, finished_reading := True, frame_loader := False\<rparr>"

definition CloseFile :: "('f, 'd) Media \<Rightarrow> ('f, 'd) Media" where
  "CloseFile s = s\<lparr>demux := []\<rparr>"

definition CloseVideo :: "('f, 'd) Media \<Rightarrow> ('f, 'd) Media" where
  "CloseVideo s =
     s\<lparr>attached_pic := False, video_opened := False,
       video_fifo := VideoQueue_free (VideoQueue_clear (video_fifo s)),
       video_frame_created := True, video_frame := 0\<rparr>"

definition CloseAudio :: "('f, 'd) Media \<Rightarrow> ('f, 'd) Media" where
  "CloseAudio s =
     s\<lparr>audio_device_started := False, audio_opened := False,
       audio_fifo := AudioQueue_free (AudioQueue_clear (audio_fifo s))\<rparr>"

definition Close :: "('f, 'd) Media \<Rightarrow> ('f, 'd) Media" where
  "Close s = CloseAudio (CloseVideo (CloseFile (StopDecodingThread s)))"

text \<open>
  Presentation times in seconds: the 64-bit product of the timestamp and the numerator
  of the time base, converted to \<^verbatim>\<open>double\<close> and divided by the denominator,
  converted to \<^verbatim>\<open>double\<close>.
\<close>

definition CalculateVideoPts :: "('f, 'd) arith \<Rightarrow> ('f, 'd) Media \<Rightarrow> AVFrame \<Rightarrow> 'd" where
  "CalculateVideoPts fp s frame =
     double_div fp
       (double_of_int fp (int64_mul (best_effort_timestamp frame) (fst (video_time_base s))))
       (double_of_int fp (snd (video_time_base s)))"

definition CalculateAudioPts :: "('f, 'd) arith \<Rightarrow> ('f, 'd) Media \<Rightarrow> AVFrame \<Rightarrow> 'd" where
  "CalculateAudioPts fp s frame =
     double_div fp
       (double_of_int fp (int64_mul (best_effort_timestamp frame) (fst (audio_time_base s))))
       (double_of_int fp (snd (audio_time_base s)))"

definition PeekFrame :: "('f, 'd) Media \<Rightarrow> AVFrame option" where
  "PeekFrame s =
     (if VideoQueue_size (video_fifo s) > 0 then Some (VideoQueue_front (video_fifo s))
      else None)"

definition ConvertFrameToRGBASprite :: "AVFrame \<Rightarrow> ('f, 'd) Media \<Rightarrow> ('f, 'd) Media" where
  "ConvertFrameToRGBASprite frame s = s\<lparr>video_frame := picture frame\<rparr>"

text \<open>
  \<^verbatim>\<open>GetVideoFrame()\<close> returns the pointer \<^verbatim>\<open>video_frame.Decal()\<close>; \<open>None\<close>
  is the null pointer and \<open>Some\<close> carries the picture the decal shows. The decal is
  created by \<^verbatim>\<open>OpenVideo\<close>, which sets \<^verbatim>\<open>video_opened\<close>, and again (empty) by
  \<^verbatim>\<open>CloseVideo\<close>: with the video open it exists, and with the video closed it
  exists unless the video was never opened.
\<close>

definition GetVideoFrame :: "('f, 'd) Media \<Rightarrow> nat option \<times> ('f, 'd) Media" where
  "GetVideoFrame s =
     (if IsVideoOpened s = False
      then (if video_frame_created s then Some (video_frame s) else None, s)
      else if FinishedReading s then (Some (video_frame s), s)
      else if VideoQueue_size (video_fifo s) > 0
      then (let frame_ref = VideoQueue_front (video_fifo s);
                s1 = ConvertFrameToRGBASprite frame_ref s;
                s2 = s1\<lparr>video_fifo := VideoQueue_pop (video_fifo s1)\<rparr>
            in (Some (video_frame s2), s2))
      else (Some (video_frame s), s))"

definition SkipVideoFrame :: "('f, 'd) Media \<Rightarrow> Result \<times> ('f, 'd) Media" where
  "SkipVideoFrame s =
     (if IsVideoOpened s = False then (Error, s)
      else if FinishedReading s then (Error, s)
      else if VideoQueue_size (video_fifo s) > 0
      then (Success, s\<lparr>video_fifo := VideoQueue_pop (video_fifo s)\<rparr>)
      else (Error, s))"

text \<open>
  The \<^verbatim>\<open>while (true)\<close> loop of \<^verbatim>\<open>GetVideoFrame(float)\<close>. The flag of the result
  tells how the loop was left: \<open>True\<close> by \<^verbatim>\<open>break\<close>, \<open>False\<close> by the
  \<^verbatim>\<open>return\<close> inside it. The loop need not end in every state (with the video closed
  \<^verbatim>\<open>SkipVideoFrame\<close> removes nothing), so not returning is the value \<open>None\<close>.
\<close>

partial_function (option) GetVideoFrame_loop ::
  "('f, 'd::ord) arith \<Rightarrow> 'd \<Rightarrow> ('f, 'd) Media \<Rightarrow> (bool \<times> ('f, 'd) Media) option" where
  "GetVideoFrame_loop fp time_reference s =
     (case PeekFrame s of
        None \<Rightarrow> Some (False, s)
      | Some next_frame \<Rightarrow>
          (let s1 = s\<lparr>last_video_pts := CalculateVideoPts fp s next_frame\<rparr>
           in if time_reference \<le> last_video_pts s1 then Some (True, s1)
              else GetVideoFrame_loop fp time_reference (snd (SkipVideoFrame s1))))"

text \<open>
  \<^verbatim>\<open>GetVideoFrame(float)\<close>. The accumulator is a \<^verbatim>\<open>float\<close> and the sum is a
  \<^verbatim>\<open>float\<close> sum; \<^verbatim>\<open>time_reference\<close> is a \<^verbatim>\<open>double\<close>.
\<close>

definition GetVideoFrame_dt ::
  "('f, 'd::ord) arith \<Rightarrow> 'f \<Rightarrow> ('f, 'd) Media \<Rightarrow> (nat option \<times> ('f, 'd) Media) option" where
  "GetVideoFrame_dt fp delta_time s =
     (if IsVideoOpened s = False then Some (None, s)
      else if FinishedReading s then Some (GetVideoFrame s)
      else if IsPaused s then Some (Some (video_frame s), s)
      else if HasAlbumArt s then Some (GetVideoFrame s)
      else (let s1 = (if IsAudioOpened s then s
                      else s\<lparr>delta_time_accumulator :=
                               float_add fp (delta_time_accumulator s) delta_time\<rparr>);
                time_reference = (if IsAudioOpened s then audio_time s
                                  else double_of_float fp (delta_time_accumulator s1))
            in if time_reference < last_video_pts s1 then Some (Some (video_frame s1), s1)
               else (case GetVideoFrame_loop fp time_reference s1 of
                       None \<Rightarrow> None
                     | Some (False, s2) \<Rightarrow> Some (Some (video_frame s2), s2)
                     | Some (True, s2) \<Rightarrow> Some (GetVideoFrame s2))))"

text \<open>
  The value \<^verbatim>\<open>GetVideoFrame(float)\<close> computes in \<^verbatim>\<open>time_reference\<close>, as a
  function of the state before the call.
\<close>

definition time_reference :: "('f, 'd) arith \<Rightarrow> 'f \<Rightarrow> ('f, 'd) Media \<Rightarrow> 'd" where
  "time_reference fp delta_time s =
     (if IsAudioOpened s then audio_time s
      else double_of_float fp (float_add fp (delta_time_accumulator s) delta_time))"

section \<open>The decoding thread\<close>

text \<open>
  The decoder writes through the pointer \<^verbatim>\<open>video_fifo.back()\<close> returned: the slot at
  the insertion cursor is replaced.
\<close>

definition VideoQueue_write_back :: "AVFrame \<Rightarrow> VideoQueue \<Rightarrow> VideoQueue" where
  "VideoQueue_write_back f q = q\<lparr>q_data := (q_data q)[unat (q_insert_idx q) := f]\<rparr>"

text \<open>
  The queue limits \<^verbatim>\<open>DecodingThread\<close> computes first: the maximum and the minimum
  number of video frames and the minimum number of audio samples. The subtraction is in
  \<^verbatim>\<open>size_t\<close> (64 bits). With the video closed the video limits stay uninitialised
  and are never read; they are 0 here.
\<close>

definition size_t_minus_1 :: "nat \<Rightarrow> nat" where
  "size_t_minus_1 n = (n + 2 ^ 64 - 1) mod 2 ^ 64"

definition DecodingThread_video_limits :: "('f, 'd) Media \<Rightarrow> nat \<times> nat" where
  "DecodingThread_video_limits s =
     (if IsVideoOpened s
      then (if HasAlbumArt s then (1, 1)
            else (let max_video_queue_size = size_t_minus_1 (VideoQueue_capacity (video_fifo s))
                  in (max_video_queue_size, max (max_video_queue_size div 2) 1)))
      else (0, 0))"

definition audio_limit :: "('f, 'd) Media \<Rightarrow> nat" where
  "audio_limit s =
     (if IsAudioOpened s then max (nat (AudioQueue_capacity (audio_fifo s) div 2)) 1 else 0)"

text \<open>The branch of the thread's loop for a packet of the video stream.\<close>

definition DecodingThread_video :: "nat \<Rightarrow> video_decode \<Rightarrow> ('f, 'd) Media \<Rightarrow> Result \<times> ('f, 'd) Media" where
  "DecodingThread_video max_video_queue_size vd s =
     (let s1 = (if max_video_queue_size = VideoQueue_size (video_fifo s)
                then s\<lparr>video_fifo := VideoQueue_pop (video_fifo s)\<rparr> else s)
      in case vd of
           SendFailed \<Rightarrow> (Error, s1)
         | ReceiveFailed \<Rightarrow>
             (Error, s1\<lparr>video_fifo := VideoQueue_write_back av_frame_alloc (video_fifo s1)\<rparr>)
         | Received f \<Rightarrow>
             (let s2 = s1\<lparr>video_fifo := VideoQueue_write_back f (video_fifo s1)\<rparr>
              in if pkt_size f \<noteq> - 1
                 then (Success, s2\<lparr>video_fifo := VideoQueue_push (video_fifo s2)\<rparr>)
                 else (Success, s2)))"

text \<open>
  The branch for a packet of the audio stream: the loop that pushes what the resampler
  still holds, and the loop over the received frames.
\<close>

fun flush_resampler :: "nat list option list \<Rightarrow> ('f, 'd) Media \<Rightarrow> Result \<times> ('f, 'd) Media" where
  "flush_resampler [] s = (Success, s)"
| "flush_resampler (None # rest) s = (Error, s)"
| "flush_resampler (Some d # rest) s =
     flush_resampler rest (s\<lparr>audio_fifo := snd (AudioQueue_push d (audio_fifo s))\<rparr>)"

fun DecodingThread_receive :: "audio_block list \<Rightarrow> bool \<Rightarrow> ('f, 'd) Media \<Rightarrow> Result \<times> ('f, 'd) Media" where
  "DecodingThread_receive [] end_ok s = (if end_ok then Success else Error, s)"
| "DecodingThread_receive (b # bs) end_ok s =
     (if pkt_size (ab_frame b) \<noteq> - 1
      then (case ab_converted b of
              None \<Rightarrow> (Error, s)
            | Some d \<Rightarrow>
                (case flush_resampler (ab_flushed b)
                        (s\<lparr>audio_fifo := snd (AudioQueue_push d (audio_fifo s))\<rparr>) of
                   (Error, s1) \<Rightarrow> (Error, s1)
                 | (Success, s1) \<Rightarrow> DecodingThread_receive bs end_ok s1))
      else DecodingThread_receive bs end_ok s)"

definition DecodingThread_audio ::
  "bool \<Rightarrow> audio_block list \<Rightarrow> bool \<Rightarrow> ('f, 'd) Media \<Rightarrow> Result \<times> ('f, 'd) Media" where
  "DecodingThread_audio send_ok blocks end_ok s =
     (if \<not> send_ok then (Error, s) else DecodingThread_receive blocks end_ok s)"

text \<open>
  The thread's outer loop over the packets still to be read. The thread either leaves
  the function with a result, or it is parked in \<^verbatim>\<open>conditional.wait\<close> until a
  consumer wakes it: a sequential run stops there. The remaining packets are returned
  with the state.
\<close>

datatype worker_exit = Exited Result | Waiting

fun DecodingThread_loop ::
  "nat \<Rightarrow> nat \<Rightarrow> nat \<Rightarrow> packet list \<Rightarrow> ('f, 'd) Media \<Rightarrow> worker_exit \<times> packet list \<times> ('f, 'd) Media" where
  "DecodingThread_loop max_v min_v min_a ps s =
     (if \<not> (\<not> HasAlbumArt s \<and> IsVideoOpened s \<and> VideoQueue_size (video_fifo s) \<le> min_v)
         \<and> \<not> (IsAudioOpened s \<and> nat (AudioQueue_size (audio_fifo s)) \<le> min_a)
         \<and> \<not> (keep_loading s = False)
      then (Waiting, ps, s)
      else if keep_loading s = False then (Exited Success, ps, s\<lparr>finished_reading := True\<rparr>)
      else (case ps of
              [] \<Rightarrow> (Exited Success, [], s\<lparr>finished_reading := True\<rparr>)
            | VideoPacket vd # rest \<Rightarrow>
                (if IsVideoOpened s
                 then (case DecodingThread_video max_v vd s of
                         (Error, s1) \<Rightarrow> (Exited Error, rest, s1)
                       | (Success, s1) \<Rightarrow> DecodingThread_loop max_v min_v min_a rest s1)
                 else DecodingThread_loop max_v min_v min_a rest s)
            | AudioPacket send_ok blocks end_ok # rest \<Rightarrow>
                (if IsAudioOpened s
                 then (case DecodingThread_audio send_ok blocks end_ok s of
                         (Error, s1) \<Rightarrow> (Exited Error, rest, s1)
                       | (Success, s1) \<Rightarrow> DecodingThread_loop max_v min_v min_a rest s1)
                 else DecodingThread_loop max_v min_v min_a rest s)
            | OtherPacket # rest \<Rightarrow> DecodingThread_loop max_v min_v min_a rest s))"

definition DecodingThread :: "('f, 'd) Media \<Rightarrow> worker_exit \<times> ('f, 'd) Media" where
  "DecodingThread s =
     (let s0 = s\<lparr>finished_reading := False\<rparr>;
          (max_v, min_v) = DecodingThread_video_limits s0;
          min_a = audio_limit s0;
          (e, rest, s1) = DecodingThread_loop max_v min_v min_a (demux s0) s0
      in (e, s1\<lparr>demux := rest\<rparr>))"

section \<open>Seeking\<close>

text \<open>
  \<^verbatim>\<open>AdjustSeekedPosition\<close>: the branches for a video packet and for an audio packet
  carry the flags \<^verbatim>\<open>video_seeked\<close> and \<^verbatim>\<open>audio_seeked\<close>. In
  \<^verbatim>\<open>size_t(audio_time * audio_sample_rate)\<close> the sample rate, an \<^verbatim>\<open>int\<close>, is
  converted to \<^verbatim>\<open>double\<close> for the product.
\<close>

definition AdjustSeekedPosition_video ::
  "('f, 'd::ord) arith \<Rightarrow> 'd \<Rightarrow> nat \<Rightarrow> video_decode \<Rightarrow> bool \<Rightarrow> ('f, 'd) Media
     \<Rightarrow> Result \<times> bool \<times> ('f, 'd) Media" where
  "AdjustSeekedPosition_video fp wanted_timepoint max_video_queue_size vd video_seeked s =
     (let s1 = (if max_video_queue_size = VideoQueue_size (video_fifo s)
                then s\<lparr>video_fifo := VideoQueue_pop (video_fifo s)\<rparr> else s)
      in case vd of
           SendFailed \<Rightarrow> (Error, video_seeked, s1)
         | ReceiveFailed \<Rightarrow>
             (Error, video_seeked,
              s1\<lparr>video_fifo := VideoQueue_write_back av_frame_alloc (video_fifo s1)\<rparr>)
         | Received f \<Rightarrow>
             (let s2 = s1\<lparr>video_fifo := VideoQueue_write_back f (video_fifo s1)\<rparr>
              in if pkt_size f \<noteq> - 1
                 then (if CalculateVideoPts fp s2 f \<ge> wanted_timepoint
                       then (Success, True, s2\<lparr>video_fifo := VideoQueue_push (video_fifo s2)\<rparr>)
                       else (Success, video_seeked, s2))
                 else (Success, video_seeked, s2)))"

fun AdjustSeekedPosition_receive ::
  "('f, 'd::ord) arith \<Rightarrow> 'd \<Rightarrow> audio_block list \<Rightarrow> bool \<Rightarrow> bool \<Rightarrow> ('f, 'd) Media
     \<Rightarrow> Result \<times> bool \<times> ('f, 'd) Media" where
  "AdjustSeekedPosition_receive fp wanted_timepoint [] end_ok audio_seeked s =
     (if end_ok then Success else Error, audio_seeked, s)"
| "AdjustSeekedPosition_receive fp wanted_timepoint (b # bs) end_ok audio_seeked s =
     (if pkt_size (ab_frame b) \<noteq> - 1
      then (if CalculateAudioPts fp s (ab_frame b) \<ge> wanted_timepoint
            then (let s1 = (if audio_seeked = False
                            then s\<lparr>audio_time := CalculateAudioPts fp s (ab_frame b),
                                   audio_frames_consumed :=
                                     size_t_of_double fp
                                       (double_mul fp (CalculateAudioPts fp s (ab_frame b))
                                          (double_of_int fp (audio_sample_rate s)))\<rparr>
                            else s)
                  in case ab_converted b of
                       None \<Rightarrow> (Error, True, s1)
                     | Some d \<Rightarrow>
                         (case flush_resampler (ab_flushed b)
                                 (s1\<lparr>audio_fifo := snd (AudioQueue_push d (audio_fifo s1))\<rparr>) of
                            (Error, s2) \<Rightarrow> (Error, True, s2)
                          | (Success, s2) \<Rightarrow>
                              AdjustSeekedPosition_receive fp wanted_timepoint bs end_ok True s2))
            else AdjustSeekedPosition_receive fp wanted_timepoint bs end_ok audio_seeked s)
      else AdjustSeekedPosition_receive fp wanted_timepoint bs end_ok audio_seeked s)"

definition AdjustSeekedPosition_audio ::
  "('f, 'd::ord) arith \<Rightarrow> 'd \<Rightarrow> bool \<Rightarrow> audio_block list \<Rightarrow> bool \<Rightarrow> bool \<Rightarrow> ('f, 'd) Media
     \<Rightarrow> Result \<times> bool \<times> ('f, 'd) Media" where
  "AdjustSeekedPosition_audio fp wanted_timepoint send_ok blocks end_ok audio_seeked s =
     (if \<not> send_ok then (Error, audio_seeked, s)
      else AdjustSeekedPosition_receive fp wanted_timepoint blocks end_ok audio_seeked s)"

text \<open>
  The loop of \<^verbatim>\<open>AdjustSeekedPosition\<close>. It is left in three ways: both flags are set
  (\<open>BothSeeked\<close>), \<^verbatim>\<open>av_read_frame\<close> reports the end of the file or an error
  (\<open>ReadEnded\<close>), or an \<^verbatim>\<open>OLC_MEDIA_ASSERT\<close> returns \<^verbatim>\<open>Result::Error\<close>
  (\<open>AssertFailed\<close>). After the first two the function returns \<^verbatim>\<open>Result::Success\<close>.
  On leaving with both flags set the \<^verbatim>\<open>double\<close> \<^verbatim>\<open>last_video_pts\<close> is
  assigned to the \<^verbatim>\<open>float\<close> \<^verbatim>\<open>delta_time_accumulator\<close>.
\<close>

datatype seek_exit = BothSeeked | ReadEnded | AssertFailed

fun AdjustSeekedPosition_loop ::
  "('f, 'd::ord) arith \<Rightarrow> 'd \<Rightarrow> nat \<Rightarrow> bool \<Rightarrow> bool \<Rightarrow> packet list \<Rightarrow> ('f, 'd) Media
     \<Rightarrow> seek_exit \<times> packet list \<times> ('f, 'd) Media" where
  "AdjustSeekedPosition_loop fp t max_v video_seeked audio_seeked ps s =
     (if video_seeked \<and> audio_seeked
      then (BothSeeked, ps,
            (if IsVideoOpened s
             then s\<lparr>last_video_pts := CalculateVideoPts fp s (VideoQueue_front (video_fifo s)),
                    delta_time_accumulator :=
                      float_of_double fp
                        (CalculateVideoPts fp s (VideoQueue_front (video_fifo s)))\<rparr>
             else s))
      else (case ps of
              [] \<Rightarrow> (ReadEnded, [], s)
            | VideoPacket vd # rest \<Rightarrow>
                (if IsVideoOpened s
                 then (case AdjustSeekedPosition_video fp t max_v vd video_seeked s of
                         (Error, vs, s1) \<Rightarrow> (AssertFailed, rest, s1)
                       | (Success, vs, s1) \<Rightarrow>
                           AdjustSeekedPosition_loop fp t max_v vs audio_seeked rest s1)
                 else AdjustSeekedPosition_loop fp t max_v video_seeked audio_seeked rest s)
            | AudioPacket send_ok blocks end_ok # rest \<Rightarrow>
                (if IsAudioOpened s
                 then (case AdjustSeekedPosition_audio fp t send_ok blocks end_ok audio_seeked s of
                         (Error, as, s1) \<Rightarrow> (AssertFailed, rest, s1)
                       | (Success, as, s1) \<Rightarrow>
                           AdjustSeekedPosition_loop fp t max_v video_seeked as rest s1)
                 else AdjustSeekedPosition_loop fp t max_v video_seeked audio_seeked rest s)
            | OtherPacket # rest \<Rightarrow>
                AdjustSeekedPosition_loop fp t max_v video_seeked audio_seeked rest s))"

definition AdjustSeekedPosition_exit ::
  "('f, 'd::ord) arith \<Rightarrow> 'd \<Rightarrow> ('f, 'd) Media \<Rightarrow> seek_exit \<times> ('f, 'd) Media" where
  "AdjustSeekedPosition_exit fp wanted_timepoint s =
     (let max_video_queue_size =
            (if IsVideoOpened s then size_t_minus_1 (VideoQueue_capacity (video_fifo s)) else 0);
          video_seeked = (if IsVideoOpened s then False else True);
          audio_seeked = (if IsAudioOpened s then False else True);
          (e, rest, s1) = AdjustSeekedPosition_loop fp wanted_timepoint max_video_queue_size
                            video_seeked audio_seeked (demux s) s
      in (e, s1\<lparr>demux := rest\<rparr>))"

definition AdjustSeekedPosition ::
  "('f, 'd::ord) arith \<Rightarrow> 'd \<Rightarrow> ('f, 'd) Media \<Rightarrow> Result \<times> ('f, 'd) Media" where
  "AdjustSeekedPosition fp wanted_timepoint s =
     (case AdjustSeekedPosition_exit fp wanted_timepoint s of
        (AssertFailed, s1) \<Rightarrow> (Error, s1)
      | (_, s1) \<Rightarrow> (Success, s1))"

text \<open>
  \<^verbatim>\<open>Seek\<close>. The answer of \<^verbatim>\<open>av_seek_frame\<close> is an input: \<open>None\<close> is a negative
  response (the demuxer stays where it is), \<open>Some ps\<close> a successful one after which
  the demuxer delivers the packets \<open>ps\<close>. The thread joined by
  \<^verbatim>\<open>StopDecodingThread\<close> is taken to be idle.
\<close>

definition Seek ::
  "('f, 'd::ord) arith \<Rightarrow> 'd \<Rightarrow> packet list option \<Rightarrow> ('f, 'd) Media
     \<Rightarrow> Result \<times> ('f, 'd) Media" where
  "Seek fp new_time seek_response s =
     (if (IsVideoOpened s \<or> IsAudioOpened s) = False then (Error, s)
      else (let s1 = StopDecodingThread (Pause s)
            in case seek_response of
                 Some ps \<Rightarrow>
                   (let s2 = s1\<lparr>demux := ps\<rparr>;
                        s3 = (if IsVideoOpened s2
                              then s2\<lparr>video_fifo := VideoQueue_clear (video_fifo s2),
                                      video_flushes := video_flushes s2 + 1\<rparr>
                              else s2);
                        s4 = (if IsAudioOpened s3
                              then s3\<lparr>audio_fifo := AudioQueue_clear (audio_fifo s3),
                                      audio_flushes := audio_flushes s3 + 1\<rparr>
                              else s3);
                        (result, s5) = AdjustSeekedPosition fp new_time s4
                    in (result, Play (StartDecodingThread s5)))
               | None \<Rightarrow> (Error, Play (StartDecodingThread s1))))"

text \<open>A freshly initialised queue of capacity 2, the smallest \<^verbatim>\<open>init\<close> accepts.\<close>

definition vq2 :: VideoQueue where
  "vq2 = snd (VideoQueue_init True 2 VideoQueue_new)"

definition chosen_format :: "AudioFormat \<Rightarrow> AVSampleFormat \<Rightarrow> AVSampleFormat" where
  "chosen_format setting src = fst (snd (ChooseAudioFormat setting src))"

text \<open>
  The state in which \<^verbatim>\<open>Seek\<close> calls \<^verbatim>\<open>AdjustSeekedPosition\<close> after a successful
  coarse seek that leaves the packets \<open>ps\<close> to be read: paused, the thread stopped,
  the queues of the open streams cleared and their decoders flushed.
\<close>

definition Seek_prepare :: "packet list \<Rightarrow> ('f, 'd) Media \<Rightarrow> ('f, 'd) Media" where
  "Seek_prepare ps s =
     (let s2 = (StopDecodingThread (Pause s))\<lparr>demux := ps\<rparr>;
          s3 = (if IsVideoOpened s2
                then s2\<lparr>video_fifo := VideoQueue_clear (video_fifo s2),
                        video_flushes := video_flushes s2 + 1\<rparr>
                else s2)
      in if IsAudioOpened s3
         then s3\<lparr>audio_fifo := AudioQueue_clear (audio_fifo s3),
                 audio_flushes := audio_flushes s3 + 1\<rparr>
         else s3)"

text \<open>
  The decoded units a list of packets holds: the frames the video decoder delivers and
  the frames the audio decoder delivers, each with the samples the resampler makes of
  it. A unit is accepted by \<^verbatim>\<open>AdjustSeekedPosition\<close> when it is not empty and its
  presentation time is at or after the wanted time.
\<close>

fun video_frames :: "packet list \<Rightarrow> AVFrame list" where
  "video_frames [] = []"
| "video_frames (VideoPacket (Received f) # ps) = f # video_frames ps"
| "video_frames (p # ps) = video_frames ps"

fun audio_blocks :: "packet list \<Rightarrow> audio_block list" where
  "audio_blocks [] = []"
| "audio_blocks (AudioPacket send_ok blocks end_ok # ps) = blocks @ audio_blocks ps"
| "audio_blocks (p # ps) = audio_blocks ps"

definition samples_of :: "nat list option \<Rightarrow> nat list" where
  "samples_of out = (case out of None \<Rightarrow> [] | Some d \<Rightarrow> d)"

definition block_samples :: "audio_block \<Rightarrow> nat list" where
  "block_samples b = samples_of (ab_converted b) @ concat (map samples_of (ab_flushed b))"

text \<open>
  The same samples in the portions in which they are pushed: what
  \<^verbatim>\<open>swr_convert_frame\<close> makes of the frame, then what each flushing call
  delivers. \<open>AudioQueue_push_all\<close> pushes a list of portions one after the other.
\<close>

definition block_chunks :: "audio_block \<Rightarrow> nat list list" where
  "block_chunks b = samples_of (ab_converted b) # map samples_of (ab_flushed b)"

definition AudioQueue_push_all :: "nat list list \<Rightarrow> AudioQueue \<Rightarrow> AudioQueue" where
  "AudioQueue_push_all ds q = foldl (\<lambda>q d. snd (AudioQueue_push d q)) q ds"

text \<open>
  The answers of the video decoder a list of packets holds, one for each packet of the
  video stream, and what the video branch of the loop of \<^verbatim>\<open>AdjustSeekedPosition\<close>
  makes of the frames in the queue (oldest first) for one such answer, as a function on
  lists: with \<open>m\<close> frames queued the oldest is given up before the packet is decoded,
  whatever it decodes to, and a frame that is accepted is appended.
\<close>

fun video_outcomes :: "packet list \<Rightarrow> video_decode list" where
  "video_outcomes [] = []"
| "video_outcomes (VideoPacket vd # ps) = vd # video_outcomes ps"
| "video_outcomes (p # ps) = video_outcomes ps"

definition resync_video ::
  "(AVFrame \<Rightarrow> bool) \<Rightarrow> nat \<Rightarrow> AVFrame list \<Rightarrow> video_decode \<Rightarrow> AVFrame list" where
  "resync_video accepted m xs vd =
     (let xs1 = (if m = length xs then tl xs else xs)
      in case vd of
           Received f \<Rightarrow> (if accepted f then xs1 @ [f] else xs1)
         | _ \<Rightarrow> xs1)"

definition video_accepted ::
  "('f, 'd::ord) arith \<Rightarrow> 'd \<Rightarrow> ('f, 'd) Media \<Rightarrow> AVFrame \<Rightarrow> bool" where
  "video_accepted fp t s f = (pkt_size f \<noteq> - 1 \<and> t \<le> CalculateVideoPts fp s f)"

definition audio_accepted ::
  "('f, 'd::ord) arith \<Rightarrow> 'd \<Rightarrow> ('f, 'd) Media \<Rightarrow> audio_block \<Rightarrow> bool" where
  "audio_accepted fp t s b =
     (pkt_size (ab_frame b) \<noteq> - 1 \<and> t \<le> CalculateAudioPts fp s (ab_frame b))"

text \<open>
  Two states agree on the streams when they have the same time bases and the same
  streams open; presentation times are then computed alike in both.
\<close>

definition same_streams :: "('f, 'd) Media \<Rightarrow> ('f, 'd) Media \<Rightarrow> bool" where
  "same_streams s s' =
     (video_time_base s' = video_time_base s \<and> audio_time_base s' = audio_time_base s \<and>
      video_opened s' = video_opened s \<and> audio_opened s' = audio_opened s)"

text \<open>
  What a run of the loop of \<^verbatim>\<open>AdjustSeekedPosition\<close> from the state \<open>s\<close> with the
  flags \<open>vs\<close> and \<open>as\<close> over the packets \<open>ps\<close> guarantees about its exit \<open>e\<close>
  and its final state \<open>s'\<close>: the streams are as before; the video queue holds nothing
  but what it held and accepted frames of \<open>ps\<close>; the audio queue holds nothing but what
  it held and samples of accepted blocks of \<open>ps\<close>; and when the loop is left with both
  flags set, each flag was set before or an accepted unit of its stream is in \<open>ps\<close>.
\<close>

definition seek_post ::
  "('f, 'd::ord) arith \<Rightarrow> 'd \<Rightarrow> ('f, 'd) Media \<Rightarrow> bool \<Rightarrow> bool \<Rightarrow> packet list \<Rightarrow> seek_exit
     \<Rightarrow> ('f, 'd) Media \<Rightarrow> bool" where
  "seek_post fp t s vs as ps e s' =
     (same_streams s s' \<and>
      set (VideoQueue_contents (video_fifo s')) \<subseteq>
        set (VideoQueue_contents (video_fifo s)) \<union>
        {f \<in> set (video_frames ps). video_accepted fp t s f} \<and>
      set (AudioQueue_contents (audio_fifo s')) \<subseteq>
        set (AudioQueue_contents (audio_fifo s)) \<union>
        (\<Union>b \<in> {b \<in> set (audio_blocks ps). audio_accepted fp t s b}. set (block_samples b)) \<and>
      (e = BothSeeked \<longrightarrow>
         (vs \<or> (\<exists>f \<in> set (video_frames ps). video_accepted fp t s f)) \<and>
         (as \<or> (\<exists>b \<in> set (audio_blocks ps). audio_accepted fp t s b))))"

text \<open>
  What such a run guarantees exactly, in terms of the packets \<open>consumed\<close> that the
  loop has read: the streams are as before; the video queue holds what \<open>resync_video\<close>
  makes of its frames for the answers of the video decoder, one after the other; and,
  unless the loop is left by a failed step, the audio queue is the one obtained by pushing
  the portions of the accepted blocks one after the other, and the loop is left with both
  flags set exactly when each flag was set before or an accepted unit of its (open)
  stream is among the packets read.
\<close>

definition seek_trace ::
  "('f, 'd::ord) arith \<Rightarrow> 'd \<Rightarrow> nat \<Rightarrow> ('f, 'd) Media \<Rightarrow> bool \<Rightarrow> bool \<Rightarrow> packet list \<Rightarrow> seek_exit
     \<Rightarrow> ('f, 'd) Media \<Rightarrow> bool" where
  "seek_trace fp t m s vs as consumed e s' =
     (same_streams s s' \<and>
      (IsVideoOpened s \<longrightarrow>
         VideoQueue_contents (video_fifo s') =
           foldl (resync_video (video_accepted fp t s) m) (VideoQueue_contents (video_fifo s))
             (video_outcomes consumed)) \<and>
      (e \<noteq> AssertFailed \<longrightarrow>
         (IsAudioOpened s \<longrightarrow>
            audio_fifo s' =
              AudioQueue_push_all
                (concat (map block_chunks (filter (audio_accepted fp t s) (audio_blocks consumed))))
                (audio_fifo s)) \<and>
         (e = BothSeeked) =
           ((vs \<or> IsVideoOpened s \<and> (\<exists>f \<in> set (video_frames consumed). video_accepted fp t s f)) \<and>
            (as \<or> IsAudioOpened s \<and> (\<exists>b \<in> set (audio_blocks consumed). audio_accepted fp t s b)))))"

section \<open>Runs and concrete states\<close>

text \<open>
  A sequence of calls of \<^verbatim>\<open>GetVideoFrame(delta_time)\<close>, one for each element of
  the list, collecting the returned pictures.
\<close>

fun GetVideoFrame_calls ::
  "('f, 'd::ord) arith \<Rightarrow> 'f list \<Rightarrow> ('f, 'd) Media
     \<Rightarrow> (nat option list \<times> ('f, 'd) Media) option" where
  "GetVideoFrame_calls fp [] s = Some ([], s)"
| "GetVideoFrame_calls fp (dt # dts) s =
     (case GetVideoFrame_dt fp dt s of
        None \<Rightarrow> None
      | Some (r, s1) \<Rightarrow>
          (case GetVideoFrame_calls fp dts s1 of
             None \<Rightarrow> None
           | Some (rs, s2) \<Rightarrow> Some (r # rs, s2)))"

text \<open>
  A video-only object at 25 frames per second that is playing picture 7 while its queue
  (capacity 2) is empty, and the same object after the decoding thread has finished.
\<close>

definition media_starved :: "(real, real) Media" where
  "media_starved =
     (Media_new False (1, 25) (1, 44100))
       \<lparr>video_opened := True, video_frame_created := True, video_fifo := vq2,
        video_frame := 7, frame_loader := True\<rparr>"

definition media_ended :: "(real, real) Media" where
  "media_ended = media_starved\<lparr>finished_reading := True\<rparr>"

text \<open>
  Three packets of a 25 frames per second video stream whose frames carry the
  timestamps 0, 1 and 2 (0.0, 0.04 and 0.08 seconds), waiting in the demuxer of the
  video-only object with the empty queue of capacity 2.
\<close>

definition frame_at :: "int \<Rightarrow> AVFrame" where
  "frame_at n = \<lparr>best_effort_timestamp = n, pkt_size = 4096, picture = nat n + 10\<rparr>"

definition media_three_packets :: "(real, real) Media" where
  "media_three_packets =
     media_starved\<lparr>demux := [VideoPacket (Received (frame_at 0)),
                             VideoPacket (Received (frame_at 1)),
                             VideoPacket (Received (frame_at 2))]\<rparr>"

text \<open>
  The starved object for a video stream with the time base 1/16, on which the
  presentation times are computed without rounding; and the same object with two queued
  frames, at the timestamps 0 and 4 (0.0 and 0.25 seconds).
\<close>

definition media_16 :: "(real, real) Media" where
  "media_16 = media_starved\<lparr>video_time_base := (1, 16)\<rparr>"

definition media_two_frames :: "(real, real) Media" where
  "media_two_frames =
     media_16
       \<lparr>video_fifo :=
          VideoQueue_push (VideoQueue_write_back (frame_at 4)
            (VideoQueue_push (VideoQueue_write_back (frame_at 0) vq2)))\<rparr>"

text \<open>
  The same three packets for an object with both streams open whose video queue has
  capacity 3 and whose audio queue (capacity 1000) is empty, so that the thread keeps
  reading for the sake of the audio stream.
\<close>

definition media_three_packets_cap3 :: "(real, real) Media" where
  "media_three_packets_cap3 =
     media_three_packets
       \<lparr>video_fifo := snd (VideoQueue_init True 3 VideoQueue_new),
        audio_opened := True, audio_fifo := aq1000\<rparr>"

text \<open>
  The playing video-only object (time base 1/16) with one queued frame, at timestamp 4
  (0.25 seconds).
\<close>

definition media_one_frame :: "(real, real) Media" where
  "media_one_frame =
     media_16\<lparr>video_fifo := VideoQueue_push (VideoQueue_write_back (frame_at 4) vq2)\<rparr>"

text \<open>
  Packets left after a coarse seek of the video-only object (time base 1/16) for the
  target time 1 second: one frame before the target only; and a frame before the target
  followed by the frames at 1.25 and 1.3125 seconds.
\<close>

definition packets_before_target :: "packet list" where
  "packets_before_target = [VideoPacket (Received (frame_at 0))]"

definition packets_around_target :: "packet list" where
  "packets_around_target =
     [VideoPacket (Received (frame_at 0)), VideoPacket (Received (frame_at 20)),
      VideoPacket (Received (frame_at 21))]"

text \<open>
  An object with both streams open, both with the time base 1/16, the audio at 48000
  samples per second with an empty queue of capacity 1000, the video queue of capacity
  2. An audio packet decodes to one frame at the given timestamp, of which the resampler
  makes the samples 1, 2, 3 and, flushed, the sample 4. After a coarse seek for the
  target time 1 second the demuxer delivers either a video frame before the target, an
  audio frame at 1 second and a video frame at 1.25 seconds; or the video frames at 1
  second and at 1.0625 seconds and then the audio frame at 1 second.
\<close>

definition media_both :: "(real, real) Media" where
  "media_both =
     media_16\<lparr>audio_time_base := (1, 16), audio_sample_rate := 48000, audio_opened := True,
              audio_fifo := aq1000\<rparr>"

definition block_at :: "int \<Rightarrow> audio_block" where
  "block_at n = \<lparr>ab_frame = frame_at n, ab_converted = Some [1, 2, 3], ab_flushed = [Some [4]]\<rparr>"

definition packets_audio_between :: "packet list" where
  "packets_audio_between =
     [VideoPacket (Received (frame_at 0)), AudioPacket True [block_at 16] True,
      VideoPacket (Received (frame_at 20))]"

definition packets_video_first :: "packet list" where
  "packets_video_first =
     [VideoPacket (Received (frame_at 16)), VideoPacket (Received (frame_at 17)),
      AudioPacket True [block_at 16] True]"

text \<open>The unfolding equations of the loops are applied by hand.\<close>

declare DecodingThread_loop.simps [simp del]
declare AdjustSeekedPosition_loop.simps [simp del]

section \<open>Properties of the video queue\<close>

lemma unat_succ_le:
  fixes x c :: "16 word"
  assumes "unat x < unat c"
  shows "unat (x + 1) = unat x + 1"
proof -
  have "unat c < 2 ^ LENGTH(16)" by (rule unsigned_less)
  with assms have "unat x + unat (1 :: 16 word) < 2 ^ LENGTH(16)" by simp
  then have "unat (x + 1) = unat x + unat (1 :: 16 word)" by (simp only: unat_add_lem)
  then show ?thesis by simp
qed

lemma push_size_le:
  assumes "VideoQueue_size q < VideoQueue_capacity q"
  shows "VideoQueue_size (VideoQueue_push q) \<le> VideoQueue_capacity (VideoQueue_push q)"
  using assms unat_succ_le [of "q_size q" "q_capacity q"]
  by (simp add: VideoQueue_size_def VideoQueue_capacity_def VideoQueue_push_def)

lemma pop_size_le:
  assumes "VideoQueue_size q \<le> VideoQueue_capacity q"
  shows "VideoQueue_size (VideoQueue_pop q) \<le> VideoQueue_capacity (VideoQueue_pop q)"
proof (cases "q_size q > 0")
  case True
  then have "unat (q_size q - 1) = unat (q_size q) - 1"
    by (simp add: unat_minus_one word_greater_zero_iff)
  with assms True show ?thesis
    by (simp add: VideoQueue_size_def VideoQueue_capacity_def VideoQueue_pop_def)
next
  case False
  with assms show ?thesis by (simp add: VideoQueue_pop_def)
qed

lemma vq_run_size_le:
  "VideoQueue_size q \<le> VideoQueue_capacity q \<Longrightarrow> push_has_room xs q \<Longrightarrow>
   VideoQueue_size (vq_run xs q) \<le> VideoQueue_capacity (vq_run xs q)"
proof (induction xs arbitrary: q)
  case Nil
  then show ?case by simp
next
  case (Cons x xs)
  show ?case
  proof (cases x)
    case Push
    with Cons.prems have "VideoQueue_size q < VideoQueue_capacity q"
      and "push_has_room xs (VideoQueue_push q)" by simp_all
    with Cons.IH [of "VideoQueue_push q"] push_size_le [of q] Push show ?thesis by simp
  next
    case Pop
    with Cons.prems have "push_has_room xs (VideoQueue_pop q)" by simp
    with Cons.IH [of "VideoQueue_pop q"] pop_size_le [OF Cons.prems(1)] Pop show ?thesis by simp
  qed
qed

lemma init_success_size:
  assumes "VideoQueue_init a c q0 = (Success, q)"
  shows "VideoQueue_size q = 0"
  using assms
  by (auto simp: VideoQueue_init_def VideoQueue_size_def VideoQueue_free_def
      VideoQueue_clear_def Let_def split: if_splits)


subsection \<open>The queue as a FIFO\<close>

lemma unat_of_nat_mod_cap:
  fixes c :: "16 word"
  assumes "0 < unat c"
  shows "unat (of_nat (n mod unat c) :: 16 word) = n mod unat c"
proof -
  have "n mod unat c < unat c" using assms by simp
  also have "unat c < 2 ^ LENGTH(16)" by (rule unsigned_less)
  finally show ?thesis by (simp add: unat_of_nat)
qed

lemma mod_add_inj:
  fixes c :: nat
  assumes "a < c" "b < c" "(d + a) mod c = (d + b) mod c"
  shows "a = b"
proof -
  from assms(3) obtain q1 q2 where "d + a + c * q1 = d + b + c * q2"
    by (auto simp: nat_mod_eq_iff)
  then have "a + c * q1 = b + c * q2" by simp
  then have "a mod c = b mod c" unfolding nat_mod_eq_iff by blast
  with assms(1,2) show ?thesis by simp
qed

lemma ring_pred: "0 < n \<Longrightarrow> (Suc d mod c + n - Suc 0) mod c = (d + n) mod c"
  by (cases n) (simp_all add: mod_add_left_eq)

lemma tl_map_upt: "tl (map f [0..<n]) = map (\<lambda>k. f (Suc k)) [0..<n - 1]"
proof (cases n)
  case 0
  then show ?thesis by simp
next
  case (Suc m)
  have "[0..<Suc m] = 0 # map Suc [0..<m]"
    by (simp only: map_Suc_upt upt_conv_Cons [of 0 "Suc m"])
  then show ?thesis by (simp add: Suc comp_def del: upt_Suc)
qed

lemma ring_succ: "(Suc d mod c + k) mod c = (d + Suc k) mod c"
  by (simp add: mod_add_left_eq)

lemma unat_pred:
  fixes x :: "16 word"
  assumes "0 < x"
  shows "unat (x - 1) = unat x - 1"
  using assms by (simp add: unat_minus_one word_greater_zero_iff)

lemma size_pos_iff: "(0 < q_size q) = (0 < VideoQueue_size q)"
  by (simp add: VideoQueue_size_def word_greater_zero_iff unat_gt_0)

lemma VideoQueue_contents_length: "length (VideoQueue_contents q) = VideoQueue_size q"
  by (simp add: VideoQueue_contents_def VideoQueue_size_def)

lemma VideoQueue_pop_ok:
  assumes "VideoQueue_ok q"
  shows "VideoQueue_ok (VideoQueue_pop q)"
proof (cases "0 < q_size q")
  case False
  with assms show ?thesis by (simp add: VideoQueue_pop_def)
next
  case True
  let ?c = "unat (q_capacity q)" and ?d = "unat (q_delete_idx q)" and ?n = "unat (q_size q)"
  from assms have c: "2 \<le> ?c" and d: "?d < ?c" and n: "?n \<le> ?c"
    and i: "unat (q_insert_idx q) = (?d + ?n) mod ?c" and l: "length (q_data q) = ?c"
    by (simp_all add: VideoQueue_ok_def)
  from True have n1: "unat (q_size q - 1) = ?n - 1" and n0: "0 < ?n"
    by (simp_all add: unat_pred word_greater_zero_iff unat_gt_0)
  from c have d': "unat (of_nat (Suc ?d mod ?c) :: 16 word) = Suc ?d mod ?c"
    by (intro unat_of_nat_mod_cap) simp
  with True c d n i l n1 n0 show ?thesis
    by (simp add: VideoQueue_ok_def VideoQueue_pop_def ring_pred)
qed

lemma VideoQueue_pop_contents:
  assumes "VideoQueue_ok q"
  shows "VideoQueue_contents (VideoQueue_pop q) = tl (VideoQueue_contents q)"
proof (cases "0 < q_size q")
  case False
  then have "unat (q_size q) = 0" by (simp add: word_greater_zero_iff unat_0_iff)
  with False show ?thesis by (simp add: VideoQueue_pop_def VideoQueue_contents_def)
next
  case True
  let ?c = "unat (q_capacity q)" and ?d = "unat (q_delete_idx q)" and ?n = "unat (q_size q)"
  from assms have c: "2 \<le> ?c" and d: "?d < ?c" and n: "?n \<le> ?c"
    and l: "length (q_data q) = ?c"
    by (simp_all add: VideoQueue_ok_def)
  from True have n1: "unat (q_size q - 1) = ?n - 1" and n0: "0 < ?n"
    by (simp_all add: unat_pred word_greater_zero_iff unat_gt_0)
  from c have d': "unat (of_nat (Suc ?d mod ?c) :: 16 word) = Suc ?d mod ?c"
    by (intro unat_of_nat_mod_cap) simp
  have "VideoQueue_contents (VideoQueue_pop q) =
          map (\<lambda>k. (q_data q)[?d := av_frame_unref (q_data q ! ?d)] ! ((Suc ?d mod ?c + k) mod ?c))
            [0..<?n - 1]"
    using True by (simp add: VideoQueue_pop_def VideoQueue_contents_def n1 d')
  also have "\<dots> = map (\<lambda>k. q_data q ! ((?d + Suc k) mod ?c)) [0..<?n - 1]"
  proof (rule map_cong [OF refl])
    fix k assume "k \<in> set [0..<?n - 1]"
    then have k: "Suc k < ?c" using n by simp
    have e: "(Suc ?d mod ?c + k) mod ?c = (?d + Suc k) mod ?c"
      by (rule ring_succ)
    have "(?d + Suc k) mod ?c \<noteq> ?d"
    proof
      assume "(?d + Suc k) mod ?c = ?d"
      then have "(?d + Suc k) mod ?c = (?d + 0) mod ?c" using d by simp
      from mod_add_inj [OF k _ this] c show False by simp
    qed
    then show "(q_data q)[?d := av_frame_unref (q_data q ! ?d)] ! ((Suc ?d mod ?c + k) mod ?c)
        = q_data q ! ((?d + Suc k) mod ?c)"
      by (simp only: e) simp
  qed
  also have "\<dots> = tl (map (\<lambda>k. q_data q ! ((?d + k) mod ?c)) [0..<?n])"
    by (simp only: tl_map_upt)
  finally show ?thesis by (simp add: VideoQueue_contents_def)
qed


lemma VideoQueue_front_hd:
  assumes "VideoQueue_ok q" and "0 < VideoQueue_size q"
  shows "VideoQueue_front q = hd (VideoQueue_contents q)"
proof -
  from assms have "unat (q_delete_idx q) < unat (q_capacity q)" and "0 < unat (q_size q)"
    by (simp_all add: VideoQueue_ok_def VideoQueue_size_def)
  then show ?thesis
    by (simp add: VideoQueue_front_def VideoQueue_contents_def hd_map upt_conv_Cons del: upt_Suc)
qed

lemma VideoQueue_write_back_ok:
  assumes "VideoQueue_ok q"
  shows "VideoQueue_ok (VideoQueue_write_back f q)"
  using assms by (simp add: VideoQueue_ok_def VideoQueue_write_back_def)

lemma VideoQueue_write_back_contents:
  assumes "VideoQueue_ok q" and "VideoQueue_size q < VideoQueue_capacity q"
  shows "VideoQueue_contents (VideoQueue_write_back f q) = VideoQueue_contents q"
proof -
  let ?c = "unat (q_capacity q)" and ?d = "unat (q_delete_idx q)" and ?n = "unat (q_size q)"
  from assms have c: "2 \<le> ?c" and n: "?n < ?c"
    and i: "unat (q_insert_idx q) = (?d + ?n) mod ?c"
    by (simp_all add: VideoQueue_ok_def VideoQueue_size_def VideoQueue_capacity_def)
  have "map (\<lambda>k. (q_data q)[(?d + ?n) mod ?c := f] ! ((?d + k) mod ?c)) [0..<?n]
      = map (\<lambda>k. q_data q ! ((?d + k) mod ?c)) [0..<?n]"
  proof (rule map_cong [OF refl])
    fix k assume "k \<in> set [0..<?n]"
    then have k: "k < ?n" by simp
    have "(?d + ?n) mod ?c \<noteq> (?d + k) mod ?c"
    proof
      assume "(?d + ?n) mod ?c = (?d + k) mod ?c"
      from mod_add_inj [OF n _ this] k n show False by simp
    qed
    then show "(q_data q)[(?d + ?n) mod ?c := f] ! ((?d + k) mod ?c) = q_data q ! ((?d + k) mod ?c)"
      by simp
  qed
  then show ?thesis by (simp add: VideoQueue_contents_def VideoQueue_write_back_def i)
qed

lemma VideoQueue_push_ok:
  assumes "VideoQueue_ok q" and "VideoQueue_size q < VideoQueue_capacity q"
  shows "VideoQueue_ok (VideoQueue_push q)"
proof -
  let ?c = "unat (q_capacity q)" and ?d = "unat (q_delete_idx q)" and ?n = "unat (q_size q)"
  from assms have c: "2 \<le> ?c" and n: "?n < ?c" and d: "?d < ?c"
    and i: "unat (q_insert_idx q) = (?d + ?n) mod ?c" and l: "length (q_data q) = ?c"
    by (simp_all add: VideoQueue_ok_def VideoQueue_size_def VideoQueue_capacity_def)
  from n have n1: "unat (q_size q + 1) = Suc ?n" using unat_succ_le [of "q_size q" "q_capacity q"] by simp
  from c have i': "unat (of_nat (Suc (unat (q_insert_idx q)) mod ?c) :: 16 word) = Suc (unat (q_insert_idx q)) mod ?c"
    by (intro unat_of_nat_mod_cap) simp
  have "Suc ((?d + ?n) mod ?c) mod ?c = Suc (?d + ?n) mod ?c"
    by (simp add: mod_Suc_eq)
  with c n d i l n1 i' show ?thesis
    by (simp add: VideoQueue_ok_def VideoQueue_push_def)
qed

lemma VideoQueue_write_back_push_contents:
  assumes "VideoQueue_ok q" and "VideoQueue_size q < VideoQueue_capacity q"
  shows "VideoQueue_contents (VideoQueue_push (VideoQueue_write_back f q)) = VideoQueue_contents q @ [f]"
proof -
  let ?c = "unat (q_capacity q)" and ?d = "unat (q_delete_idx q)" and ?n = "unat (q_size q)"
  from assms have c: "2 \<le> ?c" and n: "?n < ?c" and d: "?d < ?c"
    and i: "unat (q_insert_idx q) = (?d + ?n) mod ?c" and l: "length (q_data q) = ?c"
    by (simp_all add: VideoQueue_ok_def VideoQueue_size_def VideoQueue_capacity_def)
  from n have n1: "unat (q_size q + 1) = Suc ?n" using unat_succ_le [of "q_size q" "q_capacity q"] by simp
  have "VideoQueue_contents (VideoQueue_push (VideoQueue_write_back f q)) =
      map (\<lambda>k. q_data (VideoQueue_write_back f q) ! ((?d + k) mod ?c)) [0..<?n]
        @ [(q_data q)[(?d + ?n) mod ?c := f] ! ((?d + ?n) mod ?c)]"
    by (simp add: VideoQueue_contents_def VideoQueue_push_def VideoQueue_write_back_def n1 i)
  also have "map (\<lambda>k. q_data (VideoQueue_write_back f q) ! ((?d + k) mod ?c)) [0..<?n]
      = VideoQueue_contents (VideoQueue_write_back f q)"
    by (simp add: VideoQueue_contents_def VideoQueue_write_back_def)
  also have "\<dots> = VideoQueue_contents q" using assms by (rule VideoQueue_write_back_contents)
  also have "(q_data q)[(?d + ?n) mod ?c := f] ! ((?d + ?n) mod ?c) = f"
    using l c by simp
  finally show ?thesis .
qed

lemma VideoQueue_pop_size: "VideoQueue_size (VideoQueue_pop q) = VideoQueue_size q - 1"
proof (cases "0 < q_size q")
  case True
  then show ?thesis by (simp add: VideoQueue_pop_def VideoQueue_size_def unat_pred)
next
  case False
  then have "unat (q_size q) = 0" by (simp add: word_greater_zero_iff unat_0_iff)
  with False show ?thesis by (simp add: VideoQueue_pop_def VideoQueue_size_def)
qed

lemma VideoQueue_push_size:
  "VideoQueue_size q < VideoQueue_capacity q \<Longrightarrow> VideoQueue_size (VideoQueue_push q) = Suc (VideoQueue_size q)"
  using unat_succ_le [of "q_size q" "q_capacity q"]
  by (simp add: VideoQueue_push_def VideoQueue_size_def VideoQueue_capacity_def)

lemma VideoQueue_init_ok:
  assumes "VideoQueue_init a c q0 = (Success, q)"
  shows "VideoQueue_ok q \<and> VideoQueue_contents q = [] \<and> VideoQueue_capacity q = unat c"
proof -
  from assms have c: "\<not> c \<le> 1" by (auto simp: VideoQueue_init_def Let_def split: if_splits)
  then have "2 \<le> unat c" by (simp add: word_le_nat_alt)
  with assms show ?thesis
    by (auto simp: VideoQueue_init_def Let_def VideoQueue_ok_def VideoQueue_contents_def
        VideoQueue_capacity_def VideoQueue_free_def VideoQueue_clear_def split: if_splits)
qed

text \<open>
  C2, as stated, fails: \<^verbatim>\<open>push\<close> increments \<^verbatim>\<open>_size\<close> without any test, so
  three pushes into a fresh queue of capacity 2 give \<^verbatim>\<open>size() = 3\<close>, above
  \<^verbatim>\<open>capacity() = 2\<close>.
\<close>

theorem VideoQueue_three_pushes_exceed_capacity:
  "VideoQueue_init True 2 VideoQueue_new = (Success, vq2) \<and>
   VideoQueue_size (vq_run [Push, Push, Push] vq2) = 3 \<and>
   VideoQueue_capacity (vq_run [Push, Push, Push] vq2) = 2"
  by (simp add: vq2_def VideoQueue_init_def VideoQueue_new_def VideoQueue_push_def
      VideoQueue_size_def VideoQueue_capacity_def Let_def word_le_nat_alt)

text \<open>
  C2, amended: from a successfully initialised queue, along every sequence of
  \<^verbatim>\<open>push\<close> and \<^verbatim>\<open>pop\<close> in which each \<^verbatim>\<open>push\<close> is issued while
  \<^verbatim>\<open>size() < capacity()\<close>, \<^verbatim>\<open>size()\<close> never exceeds \<^verbatim>\<open>capacity()\<close>; and
  \<^verbatim>\<open>pop\<close> on an empty queue changes nothing (size, both cursors and the slots stay
  as they are).
\<close>

theorem VideoQueue_size_within_capacity:
  assumes "VideoQueue_init a c q0 = (Success, q)"
    and "push_has_room xs q"
  shows "VideoQueue_size (vq_run xs q) \<le> VideoQueue_capacity (vq_run xs q) \<and>
         (\<forall>e. VideoQueue_size e = 0 \<longrightarrow> VideoQueue_pop e = e)"
proof -
  have "VideoQueue_size q \<le> VideoQueue_capacity q"
    using init_success_size [OF assms(1)] by simp
  then have "VideoQueue_size (vq_run xs q) \<le> VideoQueue_capacity (vq_run xs q)"
    using assms(2) by (rule vq_run_size_le)
  moreover have "\<forall>e. VideoQueue_size e = 0 \<longrightarrow> VideoQueue_pop e = e"
    by (simp add: VideoQueue_size_def VideoQueue_pop_def unat_0_iff)
  ultimately show ?thesis by simp
qed

theorem VideoQueue_size_within_capacity_witness:
  "VideoQueue_init True 2 VideoQueue_new = (Success, vq2) \<and>
   push_has_room [Push, Pop, Pop, Push, Push] vq2 \<and>
   VideoQueue_size (vq_run [Push, Pop, Pop, Push, Push] vq2)
     \<le> VideoQueue_capacity (vq_run [Push, Pop, Pop, Push, Push] vq2) \<and>
   VideoQueue_size vq2 = 0 \<and> VideoQueue_pop vq2 = vq2"
proof -
  have i: "VideoQueue_init True 2 VideoQueue_new = (Success, vq2)"
    by (simp add: vq2_def VideoQueue_init_def VideoQueue_new_def Let_def word_le_nat_alt)
  have r: "push_has_room [Push, Pop, Pop, Push, Push] vq2"
    by (simp add: vq2_def VideoQueue_init_def VideoQueue_new_def VideoQueue_push_def
        VideoQueue_pop_def VideoQueue_size_def VideoQueue_capacity_def Let_def
        word_le_nat_alt)
  have z: "VideoQueue_size vq2 = 0"
    by (simp add: vq2_def VideoQueue_init_def VideoQueue_new_def VideoQueue_size_def Let_def
        word_le_nat_alt)
  from VideoQueue_size_within_capacity [OF i r] i r z show ?thesis by blast
qed

section \<open>Properties of the format choice\<close>

text \<open>
  C9: with the setting \<^verbatim>\<open>Default\<close> the output format is the interleaved form of
  the source format for U8/U8P, S16/S16P, S32/S32P and FLT/FLTP and 32-bit float for
  every other source format; with the settings U8, S16, S32 and F32 it is that format;
  the call succeeds and the chosen format is never planar.
\<close>

theorem ChooseAudioFormat_chosen:
  "chosen_format Default src =
     (if src = AV_SAMPLE_FMT_U8 \<or> src = AV_SAMPLE_FMT_U8P then AV_SAMPLE_FMT_U8
      else if src = AV_SAMPLE_FMT_S16 \<or> src = AV_SAMPLE_FMT_S16P then AV_SAMPLE_FMT_S16
      else if src = AV_SAMPLE_FMT_S32 \<or> src = AV_SAMPLE_FMT_S32P then AV_SAMPLE_FMT_S32
      else AV_SAMPLE_FMT_FLT) \<and>
   chosen_format U8 src = AV_SAMPLE_FMT_U8 \<and>
   chosen_format S16 src = AV_SAMPLE_FMT_S16 \<and>
   chosen_format S32 src = AV_SAMPLE_FMT_S32 \<and>
   chosen_format F32 src = AV_SAMPLE_FMT_FLT \<and>
   fst (ChooseAudioFormat setting src) = Success \<and>
   \<not> av_sample_fmt_is_planar (chosen_format setting src)"
  by (cases setting; cases src) (simp_all add: chosen_format_def)


section \<open>Properties of the audio queue\<close>

lemma aq1000_eq: "aq1000 = Some \<lparr>af_samples = [], allocated_samples = 1000\<rparr>"
  by (simp add: aq1000_def AudioQueue_init_def av_audio_fifo_alloc_def Let_def)

lemma aq600_eq: "aq600 = Some \<lparr>af_samples = [0..<600], allocated_samples = 1000\<rparr>"
  by (simp add: aq600_def aq1000_eq AudioQueue_push_def av_audio_fifo_write_def
      av_audio_fifo_space_def av_audio_fifo_size_def av_audio_fifo_drain_def Let_def)

lemma aq4_eq: "aq4 = Some \<lparr>af_samples = [1, 2], allocated_samples = 4\<rparr>"
  by (simp add: aq4_def AudioQueue_init_def av_audio_fifo_alloc_def AudioQueue_push_def
      av_audio_fifo_write_def av_audio_fifo_space_def av_audio_fifo_size_def
      av_audio_fifo_drain_def Let_def)

lemmas audio_fifo_defs =
  AudioQueue_push_def AudioQueue_capacity_def AudioQueue_size_def AudioQueue_contents_def
  AudioQueue_drain_def av_audio_fifo_write_def av_audio_fifo_space_def
  av_audio_fifo_size_def av_audio_fifo_drain_def

lemma AudioQueue_ok_SomeE:
  assumes "AudioQueue_ok q"
  obtains af where "q = Some af" and "int (length (af_samples af)) \<le> allocated_samples af"
  using assms by (auto simp: AudioQueue_ok_def split: option.splits)

lemma AudioQueue_push_fits:
  assumes "AudioQueue_ok q"
    and "AudioQueue_capacity q - AudioQueue_size q < int (length data)"
    and "int (length data) \<le> AudioQueue_capacity q"
  shows "AudioQueue_push data q =
           (int (length data),
            Some \<lparr>af_samples =
                    drop (nat (int (length data) - (AudioQueue_capacity q - AudioQueue_size q)))
                      (AudioQueue_contents q) @ data,
                  allocated_samples = AudioQueue_capacity q\<rparr>)"
proof -
  from assms(1) obtain af where "q = Some af"
    and "int (length (af_samples af)) \<le> allocated_samples af"
    by (rule AudioQueue_ok_SomeE)
  with assms(2,3) show ?thesis
    by (simp add: audio_fifo_defs Let_def min_def)
qed

lemma AudioQueue_push_grows:
  assumes "AudioQueue_ok q"
    and "AudioQueue_capacity q < int (length data)"
    and "int (length data) \<le> INT_MAX div 2"
  shows "AudioQueue_push data q =
           (int (length data),
            Some \<lparr>af_samples = data, allocated_samples = 2 * int (length data)\<rparr>)"
proof -
  from assms(1) obtain af where "q = Some af"
    and "int (length (af_samples af)) \<le> allocated_samples af"
    by (rule AudioQueue_ok_SomeE)
  with assms(2,3) show ?thesis
    by (simp add: audio_fifo_defs Let_def min_def)
qed

lemma AudioQueue_push_refused:
  assumes "AudioQueue_ok q"
    and "AudioQueue_capacity q < int (length data)"
    and "INT_MAX div 2 < int (length data)"
  shows "AudioQueue_push data q =
           (AVERROR_EINVAL, Some \<lparr>af_samples = [], allocated_samples = AudioQueue_capacity q\<rparr>)"
proof -
  from assms(1) obtain af where "q = Some af"
    and "int (length (af_samples af)) \<le> allocated_samples af"
    by (rule AudioQueue_ok_SomeE)
  with assms(2,3) show ?thesis
    by (simp add: audio_fifo_defs Let_def min_def)
qed

lemma AudioQueue_push_ok:
  assumes "AudioQueue_ok q"
  shows "AudioQueue_ok (snd (AudioQueue_push data q))"
proof -
  from assms(1) obtain af where "q = Some af"
    and "int (length (af_samples af)) \<le> allocated_samples af"
    by (rule AudioQueue_ok_SomeE)
  then show ?thesis
    by (auto simp add: AudioQueue_ok_def audio_fifo_defs Let_def min_def split: if_splits)
qed

lemma AudioQueue_ok_size_le:
  "AudioQueue_ok q \<Longrightarrow> AudioQueue_size q \<le> AudioQueue_capacity q"
  by (auto simp: AudioQueue_ok_def audio_fifo_defs split: option.splits)

lemma AudioQueue_scenario:
  "AudioQueue_push [600..<1200] aq600 =
     (600, Some \<lparr>af_samples = [200..<1200], allocated_samples = 1000\<rparr>)"
proof -
  have "[200..<600] @ [600..<1200] = [200..<1200]"
    using upt_add_eq_append [of 200 600 600] by simp
  then show ?thesis
    by (simp add: aq600_eq audio_fifo_defs Let_def)
qed

text \<open>
  C4, as stated, fails where the incoming samples exceed the whole capacity: a queue of
  capacity 4 holding two samples is pushed six. The drain is capped at what is stored
  (both samples), which leaves room for four, not six; the write then enlarges the FIFO
  (to capacity 12) instead of the drain having made room.
\<close>

theorem AudioQueue_push_larger_than_capacity:
  "AudioQueue_capacity aq4 = 4 \<and> AudioQueue_contents aq4 = [1, 2] \<and>
   AudioQueue_capacity (AudioQueue_drain 2 aq4) - AudioQueue_size (AudioQueue_drain 2 aq4) = 4 \<and>
   AudioQueue_push [3, 4, 5, 6, 7, 8] aq4 =
     (6, Some \<lparr>af_samples = [3, 4, 5, 6, 7, 8], allocated_samples = 12\<rparr>)"
  by (simp add: aq4_eq audio_fifo_defs Let_def INT_MAX_def)

text \<open>
  C4, amended: for every push of more samples than the free space of an initialised
  queue, (1) when the samples do not exceed the capacity, the push drains exactly the
  oldest \<open>samples - space\<close> stored samples and appends, so the queue is exactly full;
  (2) when they exceed the capacity but not \<^verbatim>\<open>INT_MAX / 2\<close>, every stored sample
  is drained and the FIFO is enlarged by the write to twice the sample count, holding
  the new samples only; (3) when they exceed the capacity and \<^verbatim>\<open>INT_MAX / 2\<close>,
  every stored sample is drained, nothing is appended and the push returns the error
  code \<^verbatim>\<open>AVERROR(EINVAL)\<close>, the queue left empty at its old capacity; (4) in every
  case the call returns and \<^verbatim>\<open>size() \<le> capacity()\<close> holds afterwards; (5) pushing
  600 and then 600 more samples into a queue of capacity 1000 leaves the most recent
  1000, the first 200 of the first batch discarded.
\<close>

theorem AudioQueue_push_beyond_space:
  assumes "AudioQueue_ok q"
    and "AudioQueue_capacity q - AudioQueue_size q < int (length data)"
  shows "(int (length data) \<le> AudioQueue_capacity q \<longrightarrow>
            AudioQueue_push data q =
              (int (length data),
               Some \<lparr>af_samples =
                       drop (nat (int (length data) - (AudioQueue_capacity q - AudioQueue_size q)))
                         (AudioQueue_contents q) @ data,
                     allocated_samples = AudioQueue_capacity q\<rparr>)) \<and>
         (AudioQueue_capacity q < int (length data) \<and> int (length data) \<le> INT_MAX div 2 \<longrightarrow>
            AudioQueue_push data q =
              (int (length data),
               Some \<lparr>af_samples = data, allocated_samples = 2 * int (length data)\<rparr>)) \<and>
         (AudioQueue_capacity q < int (length data) \<and> INT_MAX div 2 < int (length data) \<longrightarrow>
            AudioQueue_push data q =
              (AVERROR_EINVAL,
               Some \<lparr>af_samples = [], allocated_samples = AudioQueue_capacity q\<rparr>)) \<and>
         AudioQueue_size (snd (AudioQueue_push data q))
           \<le> AudioQueue_capacity (snd (AudioQueue_push data q)) \<and>
         AudioQueue_push [600..<1200] (snd (AudioQueue_push [0..<600] aq1000)) =
           (600, Some \<lparr>af_samples = [200..<1200], allocated_samples = 1000\<rparr>)"
proof -
  have "AudioQueue_size (snd (AudioQueue_push data q))
          \<le> AudioQueue_capacity (snd (AudioQueue_push data q))"
    using AudioQueue_push_ok [OF assms(1)] by (rule AudioQueue_ok_size_le)
  moreover have "AudioQueue_push [600..<1200] (snd (AudioQueue_push [0..<600] aq1000)) =
      (600, Some \<lparr>af_samples = [200..<1200], allocated_samples = 1000\<rparr>)"
    using AudioQueue_scenario by (simp add: aq600_def)
  ultimately show ?thesis
    using AudioQueue_push_fits [OF assms] AudioQueue_push_grows [OF assms(1)]
      AudioQueue_push_refused [OF assms(1)] by blast
qed

theorem AudioQueue_push_beyond_space_witness:
  "AudioQueue_ok aq600 \<and>
   AudioQueue_capacity aq600 - AudioQueue_size aq600 < int (length [600..<1200]) \<and>
   int (length [600..<1200]) \<le> AudioQueue_capacity aq600 \<and>
   AudioQueue_contents (snd (AudioQueue_push [600..<1200] aq600)) = [200..<1200] \<and>
   AudioQueue_size (snd (AudioQueue_push [600..<1200] aq600)) = 1000"
proof -
  have ok: "AudioQueue_ok aq600"
    by (simp add: aq600_eq AudioQueue_ok_def)
  have sp: "AudioQueue_capacity aq600 - AudioQueue_size aq600 < int (length [600..<1200])"
    by (simp add: aq600_eq audio_fifo_defs)
  have le: "int (length [600..<1200]) \<le> AudioQueue_capacity aq600"
    by (simp add: aq600_eq audio_fifo_defs)
  have "[200..<600] @ [600..<1200] = [200..<1200]"
    using upt_add_eq_append [of 200 600 600] by simp
  with AudioQueue_push_beyond_space [OF ok sp] le
  have "AudioQueue_push [600..<1200] aq600 =
          (600, Some \<lparr>af_samples = [200..<1200], allocated_samples = 1000\<rparr>)"
    by (simp add: aq600_eq audio_fifo_defs)
  with ok sp le show ?thesis
    by (simp add: AudioQueue_contents_def AudioQueue_size_def av_audio_fifo_size_def)
qed


section \<open>Properties of FinishedReading, Seek and the starved consumer\<close>

lemma vq2_eq:
  "vq2 = \<lparr>q_size = 0, q_capacity = 2, q_insert_idx = 0, q_delete_idx = 0,
          q_data = [av_frame_alloc, av_frame_alloc]\<rparr>"
proof -
  have "unat (2 :: 16 word) = 2" by simp
  moreover have "replicate (2 :: nat) av_frame_alloc = [av_frame_alloc, av_frame_alloc]"
    by (simp add: numeral_2_eq_2)
  ultimately
  have "replicate (unat (2 :: 16 word)) av_frame_alloc = [av_frame_alloc, av_frame_alloc]"
    by (simp only:)
  then show ?thesis
    by (simp add: vq2_def VideoQueue_init_def VideoQueue_new_def Let_def word_le_nat_alt)
qed

lemma media_starved_open:
  "IsVideoOpened media_starved \<and> VideoQueue_size (video_fifo media_starved) = 0"
  by (simp add: media_starved_def Media_new_def IsVideoOpened_def vq2_eq VideoQueue_size_def)

text \<open>
  C6: when at least one stream is open and the decoding thread has set
  \<^verbatim>\<open>finished_reading\<close>, \<^verbatim>\<open>FinishedReading()\<close> is false as long as the video
  queue or the audio queue of an open stream is non-empty, and true exactly when the
  queues of all open streams are empty.
\<close>

theorem FinishedReading_after_end_of_stream:
  assumes "IsVideoOpened s \<or> IsAudioOpened s" and "finished_reading s"
  shows "FinishedReading s =
           (\<not> (IsVideoOpened s \<and> VideoQueue_size (video_fifo s) > 0) \<and>
            \<not> (IsAudioOpened s \<and> AudioQueue_size (audio_fifo s) > 0))"
  using assms by (auto simp: FinishedReading_def Let_def)

theorem FinishedReading_after_end_of_stream_witness:
  "(IsVideoOpened media_ended \<or> IsAudioOpened media_ended) \<and> finished_reading media_ended \<and>
   FinishedReading media_ended = True \<and>
   FinishedReading
     (media_ended\<lparr>video_fifo := VideoQueue_push (video_fifo media_ended)\<rparr>) = False"
proof -
  let ?m = "media_ended\<lparr>video_fifo := VideoQueue_push (video_fifo media_ended)\<rparr>"
  have o: "IsVideoOpened media_ended \<or> IsAudioOpened media_ended"
    using media_starved_open by (simp add: media_ended_def IsVideoOpened_def)
  have f: "finished_reading media_ended" by (simp add: media_ended_def)
  have o': "IsVideoOpened ?m \<or> IsAudioOpened ?m"
    using o by (simp add: IsVideoOpened_def IsAudioOpened_def)
  have f': "finished_reading ?m" using f by simp
  have e: "VideoQueue_size (video_fifo media_ended) = 0"
    using media_starved_open by (simp add: media_ended_def)
  have n: "VideoQueue_size (video_fifo ?m) = 1"
    by (simp add: media_ended_def media_starved_def vq2_eq VideoQueue_push_def
        VideoQueue_size_def)
  have a: "\<not> IsAudioOpened media_ended"
    by (simp add: media_ended_def media_starved_def Media_new_def IsAudioOpened_def)
  from FinishedReading_after_end_of_stream [OF o f] e a
  have 1: "FinishedReading media_ended = True" by simp
  from FinishedReading_after_end_of_stream [OF o' f'] n o a
  have 2: "FinishedReading ?m = False" by (simp add: IsVideoOpened_def IsAudioOpened_def)
  from o f 1 2 show ?thesis by blast
qed

text \<open>
  C10: when neither the video nor the audio stream is open, \<^verbatim>\<open>FinishedReading()\<close>
  returns false; this covers an object on which \<^verbatim>\<open>Open\<close> was never called and any
  object after \<^verbatim>\<open>Close\<close>. (The comment on the declaration lists "media file wasn't
  opened" among the cases in which it returns true.)
\<close>

theorem FinishedReading_false_when_closed:
  "(IsVideoOpened s = False \<and> IsAudioOpened s = False \<longrightarrow> FinishedReading s = False) \<and>
   FinishedReading (Media_new p vtb atb) = False \<and>
   FinishedReading (Close s) = False"
  by (simp add: FinishedReading_def IsVideoOpened_def IsAudioOpened_def Media_new_def
      Close_def CloseAudio_def CloseVideo_def CloseFile_def StopDecodingThread_def)

theorem FinishedReading_false_when_closed_witness:
  "IsVideoOpened (Close media_ended) = False \<and> IsAudioOpened (Close media_ended) = False \<and>
   FinishedReading (Close media_ended) = False \<and> finished_reading (Close media_ended)"
proof -
  have c: "IsVideoOpened (Close media_ended) = False \<and> IsAudioOpened (Close media_ended) = False"
    by (simp add: IsVideoOpened_def IsAudioOpened_def Close_def CloseAudio_def CloseVideo_def
        CloseFile_def StopDecodingThread_def)
  have "finished_reading (Close media_ended)"
    by (simp add: Close_def CloseAudio_def CloseVideo_def CloseFile_def StopDecodingThread_def)
  with c FinishedReading_false_when_closed [of "Close media_ended"] show ?thesis by blast
qed

text \<open>
  C8: when the coarse seek request fails in \<^verbatim>\<open>Seek(t)\<close> on an open object, the
  queues are not cleared and the decoders are not flushed, the demuxer position and the
  clocks are as before, the decoding thread is started again, playback is resumed (not
  paused, the audio device started when audio is open), and the call returns
  \<^verbatim>\<open>Result::Error\<close>.
\<close>

theorem Seek_coarse_seek_failed:
  assumes "IsVideoOpened s \<or> IsAudioOpened s"
  shows "fst (Seek fp t None s) = Error \<and>
         video_fifo (snd (Seek fp t None s)) = video_fifo s \<and>
         audio_fifo (snd (Seek fp t None s)) = audio_fifo s \<and>
         video_flushes (snd (Seek fp t None s)) = video_flushes s \<and>
         audio_flushes (snd (Seek fp t None s)) = audio_flushes s \<and>
         demux (snd (Seek fp t None s)) = demux s \<and>
         last_video_pts (snd (Seek fp t None s)) = last_video_pts s \<and>
         delta_time_accumulator (snd (Seek fp t None s)) = delta_time_accumulator s \<and>
         audio_time (snd (Seek fp t None s)) = audio_time s \<and>
         frame_loader (snd (Seek fp t None s)) \<and>
         keep_loading (snd (Seek fp t None s)) \<and>
         \<not> finished_reading (snd (Seek fp t None s)) \<and>
         \<not> IsPaused (snd (Seek fp t None s)) \<and>
         (IsAudioOpened s \<longrightarrow> audio_device_started (snd (Seek fp t None s)))"
  using assms
  by (auto simp: Seek_def Let_def Play_def Pause_def StartDecodingThread_def
      StopDecodingThread_def IsVideoOpened_def IsAudioOpened_def IsPaused_def)

theorem Seek_coarse_seek_failed_witness:
  "(IsVideoOpened media_starved \<or> IsAudioOpened media_starved) \<and>
   fst (Seek exact_arith 3 None media_starved) = Error \<and>
   video_fifo (snd (Seek exact_arith 3 None media_starved)) = vq2 \<and>
   \<not> IsPaused (snd (Seek exact_arith 3 None media_starved))"
proof -
  have o: "IsVideoOpened media_starved \<or> IsAudioOpened media_starved"
    using media_starved_open by simp
  have "video_fifo media_starved = vq2" by (simp add: media_starved_def)
  with Seek_coarse_seek_failed [OF o, of exact_arith 3] o show ?thesis by simp
qed

lemma GetVideoFrame_loop_empty:
  "VideoQueue_size (video_fifo s) = 0 \<Longrightarrow> GetVideoFrame_loop fp t s = Some (False, s)"
  by (subst GetVideoFrame_loop.simps) (simp add: PeekFrame_def)

lemma GetVideoFrame_empty:
  "IsVideoOpened s \<Longrightarrow> VideoQueue_size (video_fifo s) = 0 \<Longrightarrow>
   GetVideoFrame s = (Some (video_frame s), s)"
  by (simp add: GetVideoFrame_def)

lemma GetVideoFrame_dt_empty:
  assumes "IsVideoOpened s" and "VideoQueue_size (video_fifo s) = 0"
  shows "\<exists>s'. GetVideoFrame_dt fp dt s = Some (Some (video_frame s), s') \<and>
              video_frame s' = video_frame s \<and> video_fifo s' = video_fifo s \<and>
              IsVideoOpened s'"
  using assms
  by (auto simp: GetVideoFrame_dt_def Let_def GetVideoFrame_loop_empty GetVideoFrame_empty
      IsVideoOpened_def)

text \<open>
  C5: with the video open and the video queue empty (the decoding thread delivers
  nothing in between), every call in a sequence of \<^verbatim>\<open>GetVideoFrame(delta_time)\<close>
  calls returns, and returns the picture shown before the first call: never the null
  pointer, never an error; the queue and the picture are left as they were.
\<close>

theorem GetVideoFrame_starved_keeps_last_frame:
  assumes "IsVideoOpened s" and "VideoQueue_size (video_fifo s) = 0"
  shows "\<exists>s'. GetVideoFrame_calls fp dts s =
                Some (replicate (length dts) (Some (video_frame s)), s') \<and>
              video_frame s' = video_frame s \<and> video_fifo s' = video_fifo s \<and>
              IsVideoOpened s'"
  using assms
proof (induction dts arbitrary: s)
  case Nil
  then show ?case by simp
next
  case (Cons dt dts)
  from GetVideoFrame_dt_empty [OF Cons.prems, of fp dt] obtain s1 where
    1: "GetVideoFrame_dt fp dt s = Some (Some (video_frame s), s1)"
    and 2: "video_frame s1 = video_frame s" "video_fifo s1 = video_fifo s" "IsVideoOpened s1"
    by blast
  from 2 Cons.prems have "VideoQueue_size (video_fifo s1) = 0" by simp
  from Cons.IH [OF 2(3) this] 2 obtain s2 where
    "GetVideoFrame_calls fp dts s1 = Some (replicate (length dts) (Some (video_frame s)), s2)"
    "video_frame s2 = video_frame s" "video_fifo s2 = video_fifo s" "IsVideoOpened s2"
    by auto
  with 1 show ?case by simp
qed

theorem GetVideoFrame_starved_keeps_last_frame_witness:
  "IsVideoOpened media_starved \<and> VideoQueue_size (video_fifo media_starved) = 0 \<and>
   (\<exists>s'. GetVideoFrame_calls exact_arith [1 / 32, 1 / 32, 1 / 32] media_starved =
            Some ([Some 7, Some 7, Some 7], s'))"
proof -
  have o: "IsVideoOpened media_starved" and e: "VideoQueue_size (video_fifo media_starved) = 0"
    using media_starved_open by simp_all
  have "video_frame media_starved = 7" by (simp add: media_starved_def)
  moreover have "replicate (length [1 / 32, 1 / 32, 1 / 32 :: real]) (Some (7 :: nat))
      = [Some 7, Some 7, Some 7]"
    by (simp add: numeral_3_eq_3)
  ultimately show ?thesis
    using GetVideoFrame_starved_keeps_last_frame
      [OF o e, of exact_arith "[1 / 32, 1 / 32, 1 / 32]"] o e
    by auto
qed


section \<open>Properties of the decoding thread\<close>

lemma VideoQueue_capacity_pop [simp]: "VideoQueue_capacity (VideoQueue_pop q) = VideoQueue_capacity q"
  by (simp add: VideoQueue_capacity_def VideoQueue_pop_def)

lemma VideoQueue_capacity_push [simp]: "VideoQueue_capacity (VideoQueue_push q) = VideoQueue_capacity q"
  by (simp add: VideoQueue_capacity_def VideoQueue_push_def)

lemma VideoQueue_capacity_write_back [simp]:
  "VideoQueue_capacity (VideoQueue_write_back f q) = VideoQueue_capacity q"
  by (simp add: VideoQueue_capacity_def VideoQueue_write_back_def)

lemma VideoQueue_size_write_back [simp]:
  "VideoQueue_size (VideoQueue_write_back f q) = VideoQueue_size q"
  by (simp add: VideoQueue_size_def VideoQueue_write_back_def)

lemma size_t_minus_1_eq:
  assumes "0 < n" and "n < 2 ^ 64"
  shows "size_t_minus_1 n = n - 1"
proof -
  from assms(1) obtain k where k: "n = Suc k" by (cases n) auto
  have "(n + 2 ^ 64 - 1) mod 2 ^ 64 = (k + 2 ^ 64) mod (2 ^ 64 :: nat)" by (simp add: k)
  also have "\<dots> = k" using assms(2) k by simp
  finally show ?thesis by (simp add: size_t_minus_1_def k)
qed

text \<open>Evicting when the limit is reached, then storing a frame: the queue-level step.\<close>

lemma evict_store:
  assumes ok: "VideoQueue_ok q"
    and m: "Suc m = VideoQueue_capacity q"
    and n: "VideoQueue_size q \<le> m"
  defines "q1 \<equiv> (if m = VideoQueue_size q then VideoQueue_pop q else q)"
  shows "VideoQueue_ok (VideoQueue_push (VideoQueue_write_back f q1))"
    and "VideoQueue_size (VideoQueue_push (VideoQueue_write_back f q1)) \<le> m"
    and "VideoQueue_contents (VideoQueue_push (VideoQueue_write_back f q1)) =
           (if m = VideoQueue_size q then tl (VideoQueue_contents q) else VideoQueue_contents q) @ [f]"
    and "VideoQueue_ok (VideoQueue_write_back f q1)"
    and "VideoQueue_size (VideoQueue_write_back f q1) \<le> m"
    and "VideoQueue_contents (VideoQueue_write_back f q1) =
           (if m = VideoQueue_size q then tl (VideoQueue_contents q) else VideoQueue_contents q)"
    and "VideoQueue_capacity (VideoQueue_push (VideoQueue_write_back f q1)) = VideoQueue_capacity q"
    and "VideoQueue_capacity (VideoQueue_write_back f q1) = VideoQueue_capacity q"
proof -
  from ok have c2: "2 \<le> VideoQueue_capacity q" by (simp add: VideoQueue_ok_def VideoQueue_capacity_def)
  have ok1: "VideoQueue_ok q1" using ok by (simp add: q1_def VideoQueue_pop_ok)
  have cap1: "VideoQueue_capacity q1 = VideoQueue_capacity q" by (simp add: q1_def)
  have n1: "Suc (VideoQueue_size q1) \<le> m"
    using n m c2 by (auto simp: q1_def VideoQueue_pop_size)
  then have lt: "VideoQueue_size q1 < VideoQueue_capacity q1" using m cap1 by simp
  have c1: "VideoQueue_contents q1 =
      (if m = VideoQueue_size q then tl (VideoQueue_contents q) else VideoQueue_contents q)"
    using ok by (simp add: q1_def VideoQueue_pop_contents)
  show "VideoQueue_ok (VideoQueue_write_back f q1)" using ok1 by (rule VideoQueue_write_back_ok)
  then show "VideoQueue_ok (VideoQueue_push (VideoQueue_write_back f q1))"
    using lt by (intro VideoQueue_push_ok) simp_all
  show "VideoQueue_size (VideoQueue_push (VideoQueue_write_back f q1)) \<le> m"
    using lt n1 by (simp add: VideoQueue_push_size)
  show "VideoQueue_contents (VideoQueue_push (VideoQueue_write_back f q1)) =
           (if m = VideoQueue_size q then tl (VideoQueue_contents q) else VideoQueue_contents q) @ [f]"
    using VideoQueue_write_back_push_contents [OF ok1 lt] c1 by simp
  show "VideoQueue_size (VideoQueue_write_back f q1) \<le> m" using n1 by simp
  show "VideoQueue_contents (VideoQueue_write_back f q1) =
           (if m = VideoQueue_size q then tl (VideoQueue_contents q) else VideoQueue_contents q)"
    using VideoQueue_write_back_contents [OF ok1 lt] c1 by simp
  show "VideoQueue_capacity (VideoQueue_push (VideoQueue_write_back f q1)) = VideoQueue_capacity q"
    using cap1 by simp
  show "VideoQueue_capacity (VideoQueue_write_back f q1) = VideoQueue_capacity q"
    using cap1 by simp
qed

text \<open>Capacity 2: the limit is one frame, and each stored frame replaces the previous one.\<close>

lemma DecodingThread_video_cap2:
  assumes "VideoQueue_ok (video_fifo s)" and "VideoQueue_capacity (video_fifo s) = 2"
    and "VideoQueue_size (video_fifo s) \<le> 1" and "pkt_size f \<noteq> - 1"
  shows "\<exists>q'. DecodingThread_video 1 (Received f) s = (Success, s\<lparr>video_fifo := q'\<rparr>) \<and>
              VideoQueue_ok q' \<and> VideoQueue_capacity q' = 2 \<and> VideoQueue_size q' \<le> 1 \<and>
              VideoQueue_contents q' = [f]"
proof -
  let ?q = "video_fifo s"
  let ?q1 = "if 1 = VideoQueue_size ?q then VideoQueue_pop ?q else ?q"
  let ?q' = "VideoQueue_push (VideoQueue_write_back f ?q1)"
  have m: "Suc 1 = VideoQueue_capacity ?q" using assms(2) by simp
  have l: "length (VideoQueue_contents ?q) \<le> 1"
    using assms(3) by (simp add: VideoQueue_contents_length)
  have t: "(if 1 = VideoQueue_size ?q then tl (VideoQueue_contents ?q) else VideoQueue_contents ?q) = []"
  proof (cases "1 = VideoQueue_size ?q")
    case True
    then have "length (tl (VideoQueue_contents ?q)) = 0"
      by (simp add: VideoQueue_contents_length)
    then have "tl (VideoQueue_contents ?q) = []" by (simp only: length_0_conv)
    with True show ?thesis by simp
  next
    case False
    with assms(3) have "length (VideoQueue_contents ?q) = 0"
      by (simp add: VideoQueue_contents_length)
    then have "VideoQueue_contents ?q = []" by (simp only: length_0_conv)
    with False show ?thesis by simp
  qed
  have "DecodingThread_video 1 (Received f) s = (Success, s\<lparr>video_fifo := ?q'\<rparr>)"
    using assms(4) by (simp add: DecodingThread_video_def Let_def)
  moreover note evict_store(1,2,3,7) [OF assms(1) m assms(3), of f]
  ultimately show ?thesis using t assms(2) by auto
qed

lemma DecodingThread_loop_cap2:
  assumes "VideoQueue_ok (video_fifo s)" and "VideoQueue_capacity (video_fifo s) = 2"
    and "VideoQueue_size (video_fifo s) \<le> 1"
    and "IsVideoOpened s" and "\<not> HasAlbumArt s" and "keep_loading s"
    and "\<forall>f \<in> set fs. pkt_size f \<noteq> - 1"
  shows "\<exists>s'. DecodingThread_loop 1 1 ma (map (\<lambda>f. VideoPacket (Received f)) fs) s
                = (Exited Success, [], s') \<and>
              VideoQueue_contents (video_fifo s') =
                (if fs = [] then VideoQueue_contents (video_fifo s) else [last fs]) \<and>
              finished_reading s'"
  using assms
proof (induction fs arbitrary: s)
  case Nil
  then show ?case
    by (subst DecodingThread_loop.simps) simp
next
  case (Cons f fs)
  from Cons.prems have pf: "pkt_size f \<noteq> - 1" by simp
  from DecodingThread_video_cap2 [OF Cons.prems(1,2,3) pf] obtain q' where
    v: "DecodingThread_video 1 (Received f) s = (Success, s\<lparr>video_fifo := q'\<rparr>)"
    and q': "VideoQueue_ok q'" "VideoQueue_capacity q' = 2" "VideoQueue_size q' \<le> 1"
      "VideoQueue_contents q' = [f]"
    by blast
  let ?s1 = "s\<lparr>video_fifo := q'\<rparr>"
  have "\<exists>s'. DecodingThread_loop 1 1 ma (map (\<lambda>f. VideoPacket (Received f)) fs) ?s1
                = (Exited Success, [], s') \<and>
              VideoQueue_contents (video_fifo s') =
                (if fs = [] then VideoQueue_contents (video_fifo ?s1) else [last fs]) \<and>
              finished_reading s'"
    using Cons.prems q'
    by (intro Cons.IH) (simp_all add: IsVideoOpened_def HasAlbumArt_def)
  then obtain s' where
    "DecodingThread_loop 1 1 ma (map (\<lambda>f. VideoPacket (Received f)) fs) ?s1
       = (Exited Success, [], s')"
    "VideoQueue_contents (video_fifo s') = (if fs = [] then [f] else [last fs])"
    "finished_reading s'"
    using q'(4) by auto
  moreover have "DecodingThread_loop 1 1 ma (map (\<lambda>f. VideoPacket (Received f)) (f # fs)) s
      = DecodingThread_loop 1 1 ma (map (\<lambda>f. VideoPacket (Received f)) fs) ?s1"
    using Cons.prems(3,4,5,6) v
    by (subst DecodingThread_loop.simps) simp
  ultimately show ?case by auto
qed

text \<open>
  C3, as stated, fails: \<^verbatim>\<open>DecodingThread\<close> evicts at \<^verbatim>\<open>capacity() - 1\<close> frames,
  which is one frame for a queue of capacity 2. After the three packets with the
  timestamps 0.0, 0.04 and 0.08 the thread has left its loop at the end of the file and
  the queue holds one frame, the third one, not the second and the third. Its
  presentation time is the quotient of 2 and 25 in \<^verbatim>\<open>double\<close>, which is 0.08,
  whatever the arithmetic.
\<close>

theorem DecodingThread_three_packets_leave_one_frame:
  "fst (DecodingThread media_three_packets) = Exited Success \<and>
   VideoQueue_capacity (video_fifo media_three_packets) = 2 \<and>
   VideoQueue_size (video_fifo (snd (DecodingThread media_three_packets))) = 1 \<and>
   VideoQueue_contents (video_fifo (snd (DecodingThread media_three_packets))) = [frame_at 2] \<and>
   (\<forall>fp. map (CalculateVideoPts fp (snd (DecodingThread media_three_packets)))
            (VideoQueue_contents (video_fifo (snd (DecodingThread media_three_packets))))
          = [double_div fp (double_of_int fp 2) (double_of_int fp 25)])"
  by (simp add: DecodingThread_def media_three_packets_def media_starved_def Media_new_def vq2_eq
      int64_mul_def
      DecodingThread_video_limits_def audio_limit_def size_t_minus_1_def
      IsVideoOpened_def IsAudioOpened_def HasAlbumArt_def
      VideoQueue_capacity_def VideoQueue_size_def Let_def
      DecodingThread_loop.simps DecodingThread_video_def VideoQueue_pop_def VideoQueue_push_def
      VideoQueue_write_back_def frame_at_def VideoQueue_contents_def CalculateVideoPts_def
      av_frame_unref_def av_frame_alloc_def AudioQueue_size_def)

text \<open>
  C3, amended: with a video queue of capacity 2 the decoding thread keeps at most
  \<^verbatim>\<open>capacity() - 1 = 1\<close> frame. After it has processed a non-empty run of video
  packets that decode to non-empty frames, with no pop by a consumer in between, the
  queue holds exactly the last of the frames; every older frame has been evicted. For
  the three frames at 0.0, 0.04 and 0.08 that is the frame at 0.08.
\<close>

theorem DecodingThread_capacity_2_keeps_last_frame:
  assumes "VideoQueue_init a 2 q0 = (Success, video_fifo s)"
    and "IsVideoOpened s" and "\<not> HasAlbumArt s" and "keep_loading s"
    and "demux s = map (\<lambda>f. VideoPacket (Received f)) fs" and "fs \<noteq> []"
    and "\<forall>f \<in> set fs. pkt_size f \<noteq> - 1"
  shows "\<exists>s'. DecodingThread s = (Exited Success, s') \<and>
              VideoQueue_contents (video_fifo s') = [last fs] \<and>
              VideoQueue_size (video_fifo s') = 1"
proof -
  let ?s0 = "s\<lparr>finished_reading := False\<rparr>"
  from VideoQueue_init_ok [OF assms(1)]
  have ok: "VideoQueue_ok (video_fifo s)" and e: "VideoQueue_contents (video_fifo s) = []"
    and c: "VideoQueue_capacity (video_fifo s) = 2"
    by simp_all
  from e have z: "VideoQueue_size (video_fifo s) = 0"
    using VideoQueue_contents_length [of "video_fifo s"] by simp
  have lim: "DecodingThread_video_limits ?s0 = (1, 1)"
    using assms(2,3) c
    by (simp add: DecodingThread_video_limits_def IsVideoOpened_def HasAlbumArt_def Let_def
        size_t_minus_1_def)
  have "\<exists>s'. DecodingThread_loop 1 1 (audio_limit ?s0)
                (map (\<lambda>f. VideoPacket (Received f)) fs) ?s0 = (Exited Success, [], s') \<and>
              VideoQueue_contents (video_fifo s') =
                (if fs = [] then VideoQueue_contents (video_fifo ?s0) else [last fs]) \<and>
              finished_reading s'"
    using ok c z assms(2,3,4,7)
    by (intro DecodingThread_loop_cap2) (simp_all add: IsVideoOpened_def HasAlbumArt_def)
  then obtain s' where
    l: "DecodingThread_loop 1 1 (audio_limit ?s0)
          (map (\<lambda>f. VideoPacket (Received f)) fs) ?s0 = (Exited Success, [], s')"
    and k: "VideoQueue_contents (video_fifo s') = [last fs]"
    using assms(6) by auto
  have "DecodingThread s = (Exited Success, s'\<lparr>demux := []\<rparr>)"
    using lim l assms(5) by (simp add: DecodingThread_def Let_def)
  moreover have "VideoQueue_size (video_fifo s') = 1"
    using VideoQueue_contents_length [of "video_fifo s'"] k by simp
  ultimately show ?thesis using k by simp
qed

theorem DecodingThread_capacity_2_keeps_last_frame_witness:
  "VideoQueue_init True 2 VideoQueue_new = (Success, video_fifo media_three_packets) \<and>
   IsVideoOpened media_three_packets \<and> \<not> HasAlbumArt media_three_packets \<and>
   keep_loading media_three_packets \<and>
   demux media_three_packets =
     map (\<lambda>f. VideoPacket (Received f)) [frame_at 0, frame_at 1, frame_at 2] \<and>
   (\<exists>s'. DecodingThread media_three_packets = (Exited Success, s') \<and>
         VideoQueue_contents (video_fifo s') = [frame_at 2] \<and>
         VideoQueue_size (video_fifo s') = 1)"
proof -
  have 1: "VideoQueue_init True 2 VideoQueue_new = (Success, video_fifo media_three_packets)"
    by (simp add: media_three_packets_def media_starved_def vq2_def VideoQueue_init_def
        VideoQueue_new_def Let_def word_le_nat_alt)
  have 2: "IsVideoOpened media_three_packets"
    by (simp add: media_three_packets_def media_starved_def IsVideoOpened_def)
  have 3: "\<not> HasAlbumArt media_three_packets"
    by (simp add: media_three_packets_def media_starved_def Media_new_def HasAlbumArt_def)
  have 4: "keep_loading media_three_packets"
    by (simp add: media_three_packets_def media_starved_def Media_new_def)
  have 5: "demux media_three_packets =
      map (\<lambda>f. VideoPacket (Received f)) [frame_at 0, frame_at 1, frame_at 2]"
    by (simp add: media_three_packets_def)
  have 6: "[frame_at 0, frame_at 1, frame_at 2] \<noteq> []" by simp
  have 7: "\<forall>f \<in> set [frame_at 0, frame_at 1, frame_at 2]. pkt_size f \<noteq> - 1"
    by (simp add: frame_at_def)
  from DecodingThread_capacity_2_keeps_last_frame [OF 1 2 3 4 5 6 7] 1 2 3 4 5
  show ?thesis by simp
qed


text \<open>
  For comparison: the outcome C3 names is that of a queue of capacity 3 (two usable
  slots) when the thread goes on reading because the audio queue is low: the third
  packet then evicts the frame at 0.0 and the queue holds the frames at 0.04 and 0.08.
\<close>

lemma DecodingThread_capacity_3_keeps_two_frames:
  "fst (DecodingThread media_three_packets_cap3) = Exited Success \<and>
   VideoQueue_capacity (video_fifo media_three_packets_cap3) = 3 \<and>
   VideoQueue_contents (video_fifo (snd (DecodingThread media_three_packets_cap3)))
     = [frame_at 1, frame_at 2] \<and>
   (\<forall>fp. map (CalculateVideoPts fp (snd (DecodingThread media_three_packets_cap3)))
            (VideoQueue_contents (video_fifo (snd (DecodingThread media_three_packets_cap3))))
          = [double_div fp (double_of_int fp 1) (double_of_int fp 25),
             double_div fp (double_of_int fp 2) (double_of_int fp 25)])"
proof -
  have r: "replicate 3 x = [x, x, x]" for x :: AVFrame
    by (simp add: numeral_3_eq_3)
  have u: "[0..<2] = [0, Suc 0]"
    by (simp add: numeral_2_eq_2)
  show ?thesis
    by (simp add: DecodingThread_def media_three_packets_cap3_def media_three_packets_def
        media_starved_def Media_new_def VideoQueue_init_def VideoQueue_new_def r u aq1000_eq
        word_le_nat_alt DecodingThread_video_limits_def audio_limit_def size_t_minus_1_def
        IsVideoOpened_def IsAudioOpened_def HasAlbumArt_def
        VideoQueue_capacity_def VideoQueue_size_def Let_def
        DecodingThread_loop.simps DecodingThread_video_def VideoQueue_pop_def
        VideoQueue_push_def VideoQueue_write_back_def frame_at_def VideoQueue_contents_def
        CalculateVideoPts_def av_frame_unref_def av_frame_alloc_def AudioQueue_size_def
        AudioQueue_capacity_def av_audio_fifo_size_def av_audio_fifo_space_def int64_mul_def)
qed

section \<open>Properties of the synchronisation in GetVideoFrame\<close>

lemma not_finished_with_frames:
  "IsVideoOpened s \<Longrightarrow> 0 < VideoQueue_size (video_fifo s) \<Longrightarrow> \<not> FinishedReading s"
  by (simp add: FinishedReading_def Let_def)

lemma CalculateVideoPts_cong:
  "video_time_base s' = video_time_base s \<Longrightarrow> CalculateVideoPts fp s' = CalculateVideoPts fp s"
  by (rule ext) (simp add: CalculateVideoPts_def)

lemma GetVideoFrame_loop_spec:
  assumes "VideoQueue_ok (video_fifo s)" and "IsVideoOpened s"
    and "cs = VideoQueue_contents (video_fifo s)"
  shows "\<exists>q' l'. GetVideoFrame_loop fp ref s =
             Some (dropWhile (\<lambda>f. \<not> ref \<le> CalculateVideoPts fp s f) cs \<noteq> [],
                   s\<lparr>video_fifo := q', last_video_pts := l'\<rparr>) \<and>
           VideoQueue_ok q' \<and>
           VideoQueue_contents q' = dropWhile (\<lambda>f. \<not> ref \<le> CalculateVideoPts fp s f) cs \<and>
           (\<forall>f fs. dropWhile (\<lambda>f. \<not> ref \<le> CalculateVideoPts fp s f) cs = f # fs \<longrightarrow>
                    l' = CalculateVideoPts fp s f)"
  using assms
proof (induction cs arbitrary: s)
  case Nil
  then have z: "VideoQueue_size (video_fifo s) = 0"
    using VideoQueue_contents_length [of "video_fifo s"] by simp
  have e: "s\<lparr>video_fifo := video_fifo s, last_video_pts := last_video_pts s\<rparr> = s" by simp
  show ?case
    apply (rule exI [of _ "video_fifo s"])
    apply (rule exI [of _ "last_video_pts s"])
    using Nil z e GetVideoFrame_loop_empty [OF z, of fp ref] apply simp
    done
next
  case (Cons f fs)
  let ?q = "video_fifo s"
  let ?P = "\<lambda>f. \<not> ref \<le> CalculateVideoPts fp s f"
  have cq: "VideoQueue_contents ?q = f # fs" by (rule Cons.prems(3) [symmetric])
  have "length (VideoQueue_contents ?q) = VideoQueue_size ?q"
    by (rule VideoQueue_contents_length)
  then have n: "0 < VideoQueue_size ?q" by (simp only: cq) simp
  have fr: "VideoQueue_front ?q = f"
    by (simp only: VideoQueue_front_hd [OF Cons.prems(1) n] cq list.sel)
  let ?s1 = "s\<lparr>last_video_pts := CalculateVideoPts fp s f\<rparr>"
  show ?case
  proof (cases "ref \<le> CalculateVideoPts fp s f")
    case True
    then have g: "GetVideoFrame_loop fp ref s = Some (True, ?s1)"
      using n fr by (subst GetVideoFrame_loop.simps) (simp add: PeekFrame_def Let_def)
    have e: "?s1 = s\<lparr>video_fifo := ?q, last_video_pts := CalculateVideoPts fp s f\<rparr>" by simp
    have d: "dropWhile ?P (f # fs) = f # fs" using True by simp
    show ?thesis
      apply (rule exI [of _ "?q"])
      apply (rule exI [of _ "CalculateVideoPts fp s f"])
      apply (simp only: d g)
      using Cons.prems(1) cq apply simp
      done
  next
    case False
    let ?s2 = "?s1\<lparr>video_fifo := VideoQueue_pop ?q\<rparr>"
    have nf: "\<not> FinishedReading ?s1"
      using n Cons.prems(2) by (intro not_finished_with_frames) (simp_all add: IsVideoOpened_def)
    have sk: "SkipVideoFrame ?s1 = (Success, ?s2)"
      using n Cons.prems(2) nf by (simp add: SkipVideoFrame_def IsVideoOpened_def)
    have st: "GetVideoFrame_loop fp ref s = GetVideoFrame_loop fp ref ?s2"
      using n fr False by (subst GetVideoFrame_loop.simps) (simp add: PeekFrame_def Let_def sk)
    have ok2: "VideoQueue_ok (video_fifo ?s2)" using Cons.prems(1) by (simp add: VideoQueue_pop_ok)
    have "VideoQueue_contents (VideoQueue_pop ?q) = tl (f # fs)"
      by (simp only: VideoQueue_pop_contents [OF Cons.prems(1)] cq)
    then have c2: "fs = VideoQueue_contents (video_fifo ?s2)" by simp
    have o2: "IsVideoOpened ?s2" using Cons.prems(2) by (simp add: IsVideoOpened_def)
    have p2: "CalculateVideoPts fp ?s2 = CalculateVideoPts fp s"
      by (rule CalculateVideoPts_cong) simp
    from Cons.IH [OF ok2 o2 c2, unfolded p2] obtain q' l' where
      r: "GetVideoFrame_loop fp ref ?s2 =
            Some (dropWhile ?P fs \<noteq> [], ?s2\<lparr>video_fifo := q', last_video_pts := l'\<rparr>)"
      and k: "VideoQueue_ok q'"
        "VideoQueue_contents q' = dropWhile ?P fs"
        "\<forall>g gs. dropWhile ?P fs = g # gs \<longrightarrow> l' = CalculateVideoPts fp s g"
      by blast
    have d: "dropWhile ?P (f # fs) = dropWhile ?P fs"
      using False by simp
    have e: "?s2\<lparr>video_fifo := q', last_video_pts := l'\<rparr> = s\<lparr>video_fifo := q', last_video_pts := l'\<rparr>"
      by simp
    show ?thesis
      apply (rule exI [of _ q'])
      apply (rule exI [of _ l'])
      apply (simp only: d st r e)
      using k apply simp
      done
  qed
qed

lemma GetVideoFrame_pops_front:
  assumes "IsVideoOpened s" and "VideoQueue_ok (video_fifo s)"
    and "VideoQueue_contents (video_fifo s) = f # fs"
  shows "\<exists>s'. GetVideoFrame s = (Some (picture f), s') \<and>
              VideoQueue_contents (video_fifo s') = fs \<and>
              last_video_pts s' = last_video_pts s \<and> video_frame s' = picture f \<and>
              delta_time_accumulator s' = delta_time_accumulator s"
proof -
  let ?q = "video_fifo s"
  have "length (VideoQueue_contents ?q) = VideoQueue_size ?q"
    by (rule VideoQueue_contents_length)
  then have n: "0 < VideoQueue_size ?q" by (simp only: assms(3)) simp
  have fr: "VideoQueue_front ?q = f"
    by (simp only: VideoQueue_front_hd [OF assms(2) n] assms(3) list.sel)
  have nf: "\<not> FinishedReading s" using assms(1) n by (rule not_finished_with_frames)
  have "VideoQueue_contents (VideoQueue_pop ?q) = tl (f # fs)"
    by (simp only: VideoQueue_pop_contents [OF assms(2)] assms(3))
  then show ?thesis
    using assms(1) n nf fr
    by (simp add: GetVideoFrame_def Let_def ConvertFrameToRGBASprite_def IsVideoOpened_def)
qed

text \<open>
  C1, amended: for every call of \<^verbatim>\<open>GetVideoFrame(delta_time)\<close> with the video open,
  playing, not finished and without attached picture, and for every floating-point
  arithmetic, the call returns. The reference time is the audio-consumed time when
  audio is open; else \<^verbatim>\<open>delta_time\<close> is added to the accumulator in
  \<^verbatim>\<open>float\<close> and the reference time is the sum. When the reference time is before
  \<^verbatim>\<open>last_video_pts\<close>, nothing is popped and the shown picture is returned.
  Otherwise the function pops, without showing them, the queued frames exactly while the
  reference time is not at or before the front frame's timestamp (the timestamp is
  strictly less than the reference time), and stops as soon as the reference time is at
  or before the front frame's timestamp or the queue is empty. In the first case that
  front frame is popped as well and made current: the frame made current never has a
  timestamp less than the reference time (an exact-equal timestamp is presented, and so
  is a later one), and its timestamp becomes \<^verbatim>\<open>last_video_pts\<close>. In the second
  case the picture shown before stays.
\<close>

theorem GetVideoFrame_dt_sync:
  assumes "IsVideoOpened s" and "\<not> IsPaused s" and "\<not> FinishedReading s"
    and "\<not> HasAlbumArt s" and "VideoQueue_ok (video_fifo s)"
  shows "\<exists>r s'. GetVideoFrame_dt fp dt s = Some (r, s') \<and>
           delta_time_accumulator s' =
             (if IsAudioOpened s then delta_time_accumulator s
              else float_add fp (delta_time_accumulator s) dt) \<and>
           (time_reference fp dt s < last_video_pts s \<longrightarrow>
              r = Some (video_frame s) \<and> video_fifo s' = video_fifo s \<and>
              last_video_pts s' = last_video_pts s) \<and>
           (\<not> time_reference fp dt s < last_video_pts s \<longrightarrow>
              VideoQueue_contents (video_fifo s') =
                tl (dropWhile (\<lambda>f. \<not> time_reference fp dt s \<le> CalculateVideoPts fp s f)
                      (VideoQueue_contents (video_fifo s))) \<and>
              (dropWhile (\<lambda>f. \<not> time_reference fp dt s \<le> CalculateVideoPts fp s f)
                 (VideoQueue_contents (video_fifo s)) = [] \<longrightarrow> r = Some (video_frame s)) \<and>
              (\<forall>f fs. dropWhile (\<lambda>f. \<not> time_reference fp dt s \<le> CalculateVideoPts fp s f)
                        (VideoQueue_contents (video_fifo s)) = f # fs \<longrightarrow>
                 r = Some (picture f) \<and> last_video_pts s' = CalculateVideoPts fp s f \<and>
                 time_reference fp dt s \<le> CalculateVideoPts fp s f))"
proof -
  let ?ref = "time_reference fp dt s"
  let ?acc = "if IsAudioOpened s then delta_time_accumulator s
              else float_add fp (delta_time_accumulator s) dt"
  let ?s1 = "if IsAudioOpened s then s
             else s\<lparr>delta_time_accumulator := float_add fp (delta_time_accumulator s) dt\<rparr>"
  let ?cs = "VideoQueue_contents (video_fifo s)"
  let ?rest = "dropWhile (\<lambda>f. \<not> ?ref \<le> CalculateVideoPts fp s f) ?cs"
  have q1: "video_fifo ?s1 = video_fifo s" and l1: "last_video_pts ?s1 = last_video_pts s"
    and v1: "video_frame ?s1 = video_frame s" and o1: "IsVideoOpened ?s1"
    and a1: "delta_time_accumulator ?s1 = ?acc"
    using assms(1) by (simp_all add: IsVideoOpened_def)
  have p1: "CalculateVideoPts fp ?s1 = CalculateVideoPts fp s"
    by (rule CalculateVideoPts_cong) simp
  have r1: "(if IsAudioOpened s then audio_time s
             else double_of_float fp (delta_time_accumulator ?s1)) = ?ref"
    by (simp add: time_reference_def)
  have unf: "GetVideoFrame_dt fp dt s =
      (if ?ref < last_video_pts s then Some (Some (video_frame s), ?s1)
       else (case GetVideoFrame_loop fp ?ref ?s1 of
               None \<Rightarrow> None
             | Some (False, s2) \<Rightarrow> Some (Some (video_frame s2), s2)
             | Some (True, s2) \<Rightarrow> Some (GetVideoFrame s2)))"
    using assms(1,2,3,4)
    by (simp only: GetVideoFrame_dt_def Let_def r1 l1 v1) (simp add: IsVideoOpened_def)
  show ?thesis
  proof (cases "?ref < last_video_pts s")
    case True
    then have "GetVideoFrame_dt fp dt s = Some (Some (video_frame s), ?s1)"
      using unf by simp
    then show ?thesis
      apply (intro exI [of _ "Some (video_frame s)"] exI [of _ ?s1])
      using True q1 l1 a1 apply simp
      done
  next
    case False
    have ok1: "VideoQueue_ok (video_fifo ?s1)" using assms(5) q1 by simp
    have c1: "?cs = VideoQueue_contents (video_fifo ?s1)" using q1 by simp
    from GetVideoFrame_loop_spec [OF ok1 o1 c1, of fp ?ref, unfolded p1] obtain q' l' where
      g: "GetVideoFrame_loop fp ?ref ?s1 =
            Some (?rest \<noteq> [], ?s1\<lparr>video_fifo := q', last_video_pts := l'\<rparr>)"
      and k: "VideoQueue_ok q'" "VideoQueue_contents q' = ?rest"
        "\<forall>f fs. ?rest = f # fs \<longrightarrow> l' = CalculateVideoPts fp s f"
      by blast
    let ?s2 = "?s1\<lparr>video_fifo := q', last_video_pts := l'\<rparr>"
    have a2: "delta_time_accumulator ?s2 = ?acc" using a1 by simp
    show ?thesis
    proof (cases ?rest)
      case Nil
      then have "GetVideoFrame_dt fp dt s = Some (Some (video_frame s), ?s2)"
        using unf False g by simp
      moreover have "VideoQueue_contents (video_fifo ?s2) = tl ?rest"
      proof -
        have "video_fifo ?s2 = q'" by simp
        moreover have "tl ?rest = ?rest" by (simp only: Nil list.sel)
        ultimately show ?thesis by (simp only: k(2))
      qed
      ultimately show ?thesis
        apply (intro exI [of _ "Some (video_frame s)"] exI [of _ ?s2])
        using False a2 apply (simp only: Nil)
        apply simp
        done
    next
      case (Cons f fs)
      have o2: "IsVideoOpened ?s2" using assms(1) by (simp add: IsVideoOpened_def)
      have ok2: "VideoQueue_ok (video_fifo ?s2)" using k(1) by simp
      have c2: "VideoQueue_contents (video_fifo ?s2) = f # fs" using k(2) Cons by simp
      from GetVideoFrame_pops_front [OF o2 ok2 c2] obtain s' where
        gv: "GetVideoFrame ?s2 = (Some (picture f), s')"
        and s': "VideoQueue_contents (video_fifo s') = fs" "last_video_pts s' = last_video_pts ?s2"
          "delta_time_accumulator s' = delta_time_accumulator ?s2"
        by blast
      have lp: "last_video_pts ?s2 = CalculateVideoPts fp s f" using k(3) Cons by simp
      have "\<not> \<not> ?ref \<le> CalculateVideoPts fp s (hd ?rest)"
        by (rule hd_dropWhile) (simp add: Cons)
      then have ge: "?ref \<le> CalculateVideoPts fp s f" by (simp add: Cons)
      have "GetVideoFrame_dt fp dt s = Some (Some (picture f), s')"
        using unf False g Cons gv by simp
      moreover have "delta_time_accumulator s' = ?acc" using s'(3) a2 by simp
      ultimately show ?thesis using False Cons s'(1,2) lp ge by simp
    qed
  qed
qed

lemma media_one_frame_contents:
  "VideoQueue_contents (video_fifo media_one_frame) = [frame_at 4] \<and>
   VideoQueue_ok (video_fifo media_one_frame)"
  by (simp add: media_one_frame_def vq2_eq VideoQueue_push_def VideoQueue_write_back_def
      VideoQueue_contents_def VideoQueue_ok_def)

lemma media_one_frame_playing:
  "IsVideoOpened media_one_frame \<and> \<not> IsPaused media_one_frame \<and>
   \<not> FinishedReading media_one_frame \<and> \<not> HasAlbumArt media_one_frame \<and>
   time_reference exact_arith (1 / 16) media_one_frame = 1 / 16 \<and>
   last_video_pts media_one_frame = 0 \<and>
   CalculateVideoPts exact_arith media_one_frame (frame_at 4) = 1 / 4"
  by (simp add: media_one_frame_def media_16_def media_starved_def Media_new_def
      IsVideoOpened_def IsPaused_def FinishedReading_def HasAlbumArt_def IsAudioOpened_def
      time_reference_def CalculateVideoPts_def frame_at_def exact_arith_def int64_mul_def)

text \<open>
  C1, as stated, fails: the loop of \<^verbatim>\<open>GetVideoFrame(float)\<close> skips a frame when
  its timestamp is before the reference time and leaves the loop at the first frame at or
  after it, which is then popped and shown. With one queued frame at 0.25 seconds
  (timestamp 4 at the time base 1/16), the accumulator at 0 and
  \<^verbatim>\<open>delta_time = 0.0625\<close>, values on which the arithmetic is exact, the reference
  time is 0.0625 and the frame is popped and made current although its timestamp is
  greater than the reference time.
\<close>

theorem GetVideoFrame_dt_presents_later_frame:
  "IsVideoOpened media_one_frame \<and> \<not> IsPaused media_one_frame \<and>
   \<not> FinishedReading media_one_frame \<and> \<not> HasAlbumArt media_one_frame \<and>
   time_reference exact_arith (1 / 16) media_one_frame = 1 / 16 \<and>
   map (CalculateVideoPts exact_arith media_one_frame)
     (VideoQueue_contents (video_fifo media_one_frame)) = [1 / 4] \<and>
   map_option fst (GetVideoFrame_dt exact_arith (1 / 16) media_one_frame)
     = Some (Some (picture (frame_at 4))) \<and>
   map_option (VideoQueue_size \<circ> video_fifo \<circ> snd)
     (GetVideoFrame_dt exact_arith (1 / 16) media_one_frame) = Some 0 \<and>
   map_option (last_video_pts \<circ> snd) (GetVideoFrame_dt exact_arith (1 / 16) media_one_frame)
     = Some (1 / 4)"
proof -
  have "GetVideoFrame_dt exact_arith (1 / 16) media_one_frame =
      Some (Some (picture (frame_at 4)),
            media_16\<lparr>delta_time_accumulator := 1 / 16, last_video_pts := 1 / 4,
                      video_frame := picture (frame_at 4),
                      video_fifo := VideoQueue_pop (video_fifo media_one_frame)\<rparr>)"
    by (simp add: GetVideoFrame_dt_def GetVideoFrame_loop.simps GetVideoFrame_def
      media_one_frame_def media_16_def media_starved_def Media_new_def IsVideoOpened_def
      IsPaused_def FinishedReading_def HasAlbumArt_def IsAudioOpened_def
      CalculateVideoPts_def frame_at_def PeekFrame_def VideoQueue_size_def VideoQueue_front_def
      vq2_eq VideoQueue_push_def VideoQueue_write_back_def ConvertFrameToRGBASprite_def Let_def
      exact_arith_def int64_mul_def)
  moreover have "VideoQueue_size (VideoQueue_pop (video_fifo media_one_frame)) = 0"
    by (simp add: media_one_frame_def vq2_eq VideoQueue_push_def VideoQueue_write_back_def
        VideoQueue_pop_def VideoQueue_size_def)
  ultimately show ?thesis
    using media_one_frame_playing media_one_frame_contents by simp
qed

lemma media_two_frames_contents:
  "VideoQueue_contents (video_fifo media_two_frames) = [frame_at 0, frame_at 4] \<and>
   VideoQueue_ok (video_fifo media_two_frames)"
proof -
  have "[0..<2] = [0, Suc 0]" by (simp add: numeral_2_eq_2)
  then show ?thesis
    by (simp add: media_two_frames_def vq2_eq VideoQueue_push_def VideoQueue_write_back_def
        VideoQueue_contents_def VideoQueue_ok_def)
qed

lemma media_two_frames_playing:
  "IsVideoOpened media_two_frames \<and> \<not> IsPaused media_two_frames \<and>
   \<not> FinishedReading media_two_frames \<and> \<not> HasAlbumArt media_two_frames \<and>
   \<not> IsAudioOpened media_two_frames \<and>
   delta_time_accumulator media_two_frames = 0 \<and>
   time_reference exact_arith (1 / 16) media_two_frames = 1 / 16 \<and>
   last_video_pts media_two_frames = 0 \<and>
   CalculateVideoPts exact_arith media_two_frames (frame_at 0) = 0 \<and>
   CalculateVideoPts exact_arith media_two_frames (frame_at 4) = 1 / 4"
  by (simp add: media_two_frames_def media_16_def media_starved_def Media_new_def
      IsVideoOpened_def IsPaused_def FinishedReading_def HasAlbumArt_def IsAudioOpened_def
      time_reference_def CalculateVideoPts_def frame_at_def exact_arith_def int64_mul_def)

theorem GetVideoFrame_dt_sync_witness:
  "IsVideoOpened media_two_frames \<and> \<not> IsPaused media_two_frames \<and>
   \<not> FinishedReading media_two_frames \<and> \<not> HasAlbumArt media_two_frames \<and>
   VideoQueue_ok (video_fifo media_two_frames) \<and>
   \<not> time_reference exact_arith (1 / 16) media_two_frames < last_video_pts media_two_frames \<and>
   VideoQueue_contents (video_fifo media_two_frames) = [frame_at 0, frame_at 4] \<and>
   (\<exists>r s'. GetVideoFrame_dt exact_arith (1 / 16) media_two_frames = Some (r, s') \<and>
           VideoQueue_contents (video_fifo s') = [] \<and> r = Some (picture (frame_at 4)) \<and>
           last_video_pts s' = 1 / 4 \<and> delta_time_accumulator s' = 1 / 16)"
proof -
  note p = media_two_frames_playing
  note c = media_two_frames_contents
  have d: "dropWhile
             (\<lambda>f. \<not> time_reference exact_arith (1 / 16) media_two_frames
                       \<le> CalculateVideoPts exact_arith media_two_frames f)
             (VideoQueue_contents (video_fifo media_two_frames)) = [frame_at 4]"
    using p c by simp
  have le: "\<not> time_reference exact_arith (1 / 16) media_two_frames
               < last_video_pts media_two_frames"
    using p by simp
  have acc: "(if IsAudioOpened media_two_frames then delta_time_accumulator media_two_frames
              else float_add exact_arith (delta_time_accumulator media_two_frames) (1 / 16))
             = 1 / 16"
    using p by (simp add: exact_arith_def)
  from GetVideoFrame_dt_sync [of media_two_frames exact_arith "1 / 16"] p c
  obtain r s' where
    "GetVideoFrame_dt exact_arith (1 / 16) media_two_frames = Some (r, s')"
    "VideoQueue_contents (video_fifo s') = tl [frame_at 4]"
    "r = Some (picture (frame_at 4))"
    "last_video_pts s' = CalculateVideoPts exact_arith media_two_frames (frame_at 4)"
    "delta_time_accumulator s' = 1 / 16"
    unfolding d acc using le by blast
  then show ?thesis using p c le by simp
qed

section \<open>Properties of the re-synchronisation after a seek\<close>

lemma same_streams_refl [simp]: "same_streams s s"
  by (simp add: same_streams_def)

lemma same_streams_trans: "same_streams s s1 \<Longrightarrow> same_streams s1 s2 \<Longrightarrow> same_streams s s2"
  by (simp add: same_streams_def)

lemma same_streams_accepted:
  assumes "same_streams s s'"
  shows "video_accepted fp t s' = video_accepted fp t s" and "audio_accepted fp t s' = audio_accepted fp t s"
    and "IsVideoOpened s' = IsVideoOpened s" and "IsAudioOpened s' = IsAudioOpened s"
    and "CalculateVideoPts fp s' = CalculateVideoPts fp s"
  using assms
  by (auto simp: same_streams_def video_accepted_def audio_accepted_def CalculateVideoPts_def
      CalculateAudioPts_def IsVideoOpened_def IsAudioOpened_def fun_eq_iff)

lemma AudioQueue_push_contents_subset:
  "set (AudioQueue_contents (snd (AudioQueue_push d q))) \<subseteq> set (AudioQueue_contents q) \<union> set d"
proof (cases q)
  case None
  then show ?thesis by (simp add: AudioQueue_push_def AudioQueue_contents_def)
next
  case (Some af)
  have "set (drop n (af_samples af)) \<subseteq> set (af_samples af)" for n by (rule set_drop_subset)
  then show ?thesis
    by (auto simp: Some audio_fifo_defs Let_def split: if_splits dest: in_set_dropD)
qed

lemma flush_resampler_step:
  assumes "flush_resampler fl s = (r, s')"
  shows "\<exists>a'. s' = s\<lparr>audio_fifo := a'\<rparr> \<and>
              set (AudioQueue_contents a') \<subseteq>
                set (AudioQueue_contents (audio_fifo s)) \<union> set (concat (map samples_of fl))"
  using assms
proof (induction fl s rule: flush_resampler.induct)
  case (1 s)
  then have "s' = s\<lparr>audio_fifo := audio_fifo s\<rparr>" by simp
  then show ?case by blast
next
  case (2 rest s)
  then have "s' = s\<lparr>audio_fifo := audio_fifo s\<rparr>" by simp
  then show ?case by blast
next
  case (3 d rest s)
  let ?s1 = "s\<lparr>audio_fifo := snd (AudioQueue_push d (audio_fifo s))\<rparr>"
  from 3 obtain a' where a: "s' = ?s1\<lparr>audio_fifo := a'\<rparr>"
    and b: "set (AudioQueue_contents a') \<subseteq>
              set (AudioQueue_contents (audio_fifo ?s1)) \<union> set (concat (map samples_of rest))"
    by auto
  from a have "s' = s\<lparr>audio_fifo := a'\<rparr>" by simp
  moreover have "set (AudioQueue_contents a') \<subseteq>
      set (AudioQueue_contents (audio_fifo s)) \<union> set (concat (map samples_of (Some d # rest)))"
    using b AudioQueue_push_contents_subset [of d "audio_fifo s"]
    by (auto simp: samples_of_def)
  ultimately show ?case by blast
qed


lemma AdjustSeekedPosition_receive_step:
  assumes "AdjustSeekedPosition_receive fp t bs end_ok as s = (r, as1, s1)"
  shows "video_fifo s1 = video_fifo s \<and> same_streams s s1 \<and>
         set (AudioQueue_contents (audio_fifo s1)) \<subseteq>
           set (AudioQueue_contents (audio_fifo s)) \<union>
           (\<Union>b \<in> {b \<in> set bs. audio_accepted fp t s b}. set (block_samples b)) \<and>
         (as1 \<longrightarrow> as \<or> (\<exists>b \<in> set bs. audio_accepted fp t s b))"
  using assms
proof (induction bs arbitrary: as s)
  case Nil
  then show ?case by (auto split: if_splits)
next
  case (Cons b bs)
  show ?case
  proof (cases "audio_accepted fp t s b")
    case False
    then have "AdjustSeekedPosition_receive fp t (b # bs) end_ok as s
        = AdjustSeekedPosition_receive fp t bs end_ok as s"
      by (auto simp: audio_accepted_def)
    with Cons.prems have "AdjustSeekedPosition_receive fp t bs end_ok as s = (r, as1, s1)" by simp
    from Cons.IH [OF this] False show ?thesis by auto
  next
    case True
    let ?s1 = "if as = False
               then s\<lparr>audio_time := CalculateAudioPts fp s (ab_frame b),
                      audio_frames_consumed :=
                        size_t_of_double fp
                          (double_mul fp (CalculateAudioPts fp s (ab_frame b))
                             (double_of_int fp (audio_sample_rate s)))\<rparr>
               else s"
    have f1: "video_fifo ?s1 = video_fifo s" "same_streams s ?s1" "audio_fifo ?s1 = audio_fifo s"
      by (simp_all add: same_streams_def)
    show ?thesis
    proof (cases "ab_converted b")
      case None
      with True Cons.prems have "s1 = ?s1" "as1 = True"
        by (auto simp: audio_accepted_def Let_def)
      with f1 True show ?thesis by auto
    next
      case (Some d)
      let ?s2 = "?s1\<lparr>audio_fifo := snd (AudioQueue_push d (audio_fifo ?s1))\<rparr>"
      obtain r2 s3 where fl: "flush_resampler (ab_flushed b) ?s2 = (r2, s3)"
        by (cases "flush_resampler (ab_flushed b) ?s2")
      from flush_resampler_step [OF fl] obtain a' where
        s3: "s3 = ?s2\<lparr>audio_fifo := a'\<rparr>"
        and a': "set (AudioQueue_contents a') \<subseteq>
                   set (AudioQueue_contents (audio_fifo ?s2)) \<union>
                   set (concat (map samples_of (ab_flushed b)))"
        by blast
      have f3: "video_fifo s3 = video_fifo s" "same_streams s s3"
        using s3 by (simp_all add: same_streams_def)
      have "set (AudioQueue_contents (audio_fifo ?s2)) \<subseteq>
              set (AudioQueue_contents (audio_fifo s)) \<union> set d"
        using AudioQueue_push_contents_subset [of d "audio_fifo s"] by (simp add: f1)
      with a' s3 have c3: "set (AudioQueue_contents (audio_fifo s3)) \<subseteq>
              set (AudioQueue_contents (audio_fifo s)) \<union> set (block_samples b)"
        by (auto simp: block_samples_def Some samples_of_def)
      show ?thesis
      proof (cases r2)
        case Error
        with True Some fl Cons.prems have "s1 = s3" "as1 = True"
          by (auto simp: audio_accepted_def Let_def)
        with f3 c3 True show ?thesis by auto
      next
        case Success
        with True Some fl Cons.prems
        have rec: "AdjustSeekedPosition_receive fp t bs end_ok True s3 = (r, as1, s1)"
          by (auto simp: audio_accepted_def Let_def)
        note ih = Cons.IH [OF rec]
        note eq = same_streams_accepted(2) [OF f3(2), of fp t]
        from ih have "video_fifo s1 = video_fifo s" using f3 by simp
        moreover from ih have "same_streams s s1" using f3 same_streams_trans by blast
        moreover have "set (AudioQueue_contents (audio_fifo s1)) \<subseteq>
           set (AudioQueue_contents (audio_fifo s)) \<union>
           (\<Union>x \<in> {x \<in> set (b # bs). audio_accepted fp t s x}. set (block_samples x))"
        proof -
          have u: "(\<Union>x \<in> {x \<in> set (b # bs). audio_accepted fp t s x}. set (block_samples x))
              = set (block_samples b) \<union>
                (\<Union>x \<in> {x \<in> set bs. audio_accepted fp t s x}. set (block_samples x))"
            using True by auto
          from ih have "set (AudioQueue_contents (audio_fifo s1)) \<subseteq>
              set (AudioQueue_contents (audio_fifo s3)) \<union>
              (\<Union>x \<in> {x \<in> set bs. audio_accepted fp t s x}. set (block_samples x))"
            unfolding eq by simp
          with c3 show ?thesis unfolding u by blast
        qed
        ultimately show ?thesis using True by auto
      qed
    qed
  qed
qed

lemma AdjustSeekedPosition_audio_step:
  assumes "AdjustSeekedPosition_audio fp t send_ok bs end_ok as s = (r, as1, s1)"
  shows "video_fifo s1 = video_fifo s \<and> same_streams s s1 \<and>
         set (AudioQueue_contents (audio_fifo s1)) \<subseteq>
           set (AudioQueue_contents (audio_fifo s)) \<union>
           (\<Union>b \<in> {b \<in> set bs. audio_accepted fp t s b}. set (block_samples b)) \<and>
         (as1 \<longrightarrow> as \<or> (\<exists>b \<in> set bs. audio_accepted fp t s b))"
proof (cases send_ok)
  case True
  with assms have "AdjustSeekedPosition_receive fp t bs end_ok as s = (r, as1, s1)"
    by (simp add: AdjustSeekedPosition_audio_def)
  then show ?thesis by (rule AdjustSeekedPosition_receive_step)
next
  case False
  with assms have "s1 = s" "as1 = as" by (simp_all add: AdjustSeekedPosition_audio_def)
  then show ?thesis by simp
qed


lemma set_tl_subset: "set (tl xs) \<subseteq> set xs"
  by (cases xs) auto

lemma evict_only:
  assumes "VideoQueue_ok q" and "Suc m = VideoQueue_capacity q" and "VideoQueue_size q \<le> m"
  defines "q1 \<equiv> (if m = VideoQueue_size q then VideoQueue_pop q else q)"
  shows "VideoQueue_ok q1" and "Suc m = VideoQueue_capacity q1" and "VideoQueue_size q1 \<le> m"
    and "set (VideoQueue_contents q1) \<subseteq> set (VideoQueue_contents q)"
proof -
  show "VideoQueue_ok q1" using assms(1) by (simp add: q1_def VideoQueue_pop_ok)
  show "Suc m = VideoQueue_capacity q1" using assms(2) by (simp add: q1_def)
  show "VideoQueue_size q1 \<le> m" using assms(3) by (simp add: q1_def VideoQueue_pop_size)
  have "set (tl (VideoQueue_contents q)) \<subseteq> set (VideoQueue_contents q)"
    by (rule set_tl_subset)
  then show "set (VideoQueue_contents q1) \<subseteq> set (VideoQueue_contents q)"
    using assms(1) by (simp add: q1_def VideoQueue_pop_contents)
qed

lemma AdjustSeekedPosition_video_step:
  assumes ok: "VideoQueue_ok (video_fifo s)"
    and m: "Suc m = VideoQueue_capacity (video_fifo s)"
    and n: "VideoQueue_size (video_fifo s) \<le> m"
    and r: "AdjustSeekedPosition_video fp t m vd vs s = (r, vs1, s1)"
  shows "\<exists>q1. s1 = s\<lparr>video_fifo := q1\<rparr> \<and> VideoQueue_ok q1 \<and>
           Suc m = VideoQueue_capacity q1 \<and> VideoQueue_size q1 \<le> m \<and>
           set (VideoQueue_contents q1) \<subseteq>
             set (VideoQueue_contents (video_fifo s)) \<union>
             {f. vd = Received f \<and> video_accepted fp t s f} \<and>
           (vs1 \<longrightarrow> vs \<or> (\<exists>f. vd = Received f \<and> video_accepted fp t s f))"
proof -
  let ?q = "video_fifo s"
  let ?qe = "if m = VideoQueue_size ?q then VideoQueue_pop ?q else ?q"
  let ?se = "if m = VideoQueue_size ?q then s\<lparr>video_fifo := VideoQueue_pop ?q\<rparr> else s"
  have s0: "?se = s\<lparr>video_fifo := ?qe\<rparr>"
    by (cases "m = VideoQueue_size ?q") simp_all
  have tlsub: "set (if m = VideoQueue_size ?q then tl (VideoQueue_contents ?q)
                    else VideoQueue_contents ?q) \<subseteq> set (VideoQueue_contents ?q)"
    using set_tl_subset [of "VideoQueue_contents ?q"] by simp
  note eo = evict_only [OF ok m n]
  show ?thesis
  proof (cases vd)
    case SendFailed
    with r have "s1 = ?se" "vs1 = vs"
      by (simp_all add: AdjustSeekedPosition_video_def Let_def)
    with s0 have "s1 = s\<lparr>video_fifo := ?qe\<rparr>" by simp
    with eo \<open>vs1 = vs\<close> show ?thesis by blast
  next
    case ReceiveFailed
    let ?q1 = "VideoQueue_write_back av_frame_alloc ?qe"
    from r ReceiveFailed have "s1 = ?se\<lparr>video_fifo := VideoQueue_write_back av_frame_alloc (video_fifo ?se)\<rparr>"
      and v: "vs1 = vs"
      by (simp_all add: AdjustSeekedPosition_video_def Let_def)
    then have e: "s1 = s\<lparr>video_fifo := ?q1\<rparr>" by simp
    note es = evict_store(4,5,6,8) [OF ok m n, of av_frame_alloc]
    have "set (VideoQueue_contents ?q1) \<subseteq> set (VideoQueue_contents ?q)"
      using es(3) tlsub by simp
    with e v es(1,2,4) m show ?thesis by (intro exI [of _ ?q1]) auto
  next
    case (Received f)
    let ?qw = "VideoQueue_write_back f ?qe"
    let ?s2 = "?se\<lparr>video_fifo := VideoQueue_write_back f (video_fifo ?se)\<rparr>"
    have s2: "?s2 = s\<lparr>video_fifo := ?qw\<rparr>" by simp
    have pts: "CalculateVideoPts fp ?s2 f = CalculateVideoPts fp s f"
      by (simp add: CalculateVideoPts_def)
    show ?thesis
    proof (cases "video_accepted fp t s f")
      case True
      let ?q1 = "VideoQueue_push ?qw"
      from r Received True pts have "s1 = ?s2\<lparr>video_fifo := VideoQueue_push (video_fifo ?s2)\<rparr>"
        by (simp add: AdjustSeekedPosition_video_def Let_def video_accepted_def)
      then have e: "s1 = s\<lparr>video_fifo := ?q1\<rparr>" by simp
      note es = evict_store(1,2,3,7) [OF ok m n, of f]
      have "set (VideoQueue_contents ?q1) \<subseteq> set (VideoQueue_contents ?q) \<union> {f}"
        using es(3) tlsub by auto
      with e es(1,2,4) m True Received show ?thesis by (intro exI [of _ ?q1]) auto
    next
      case False
      from r Received False pts have "s1 = ?s2" and v: "vs1 = vs"
        by (auto simp add: AdjustSeekedPosition_video_def Let_def video_accepted_def
            split: if_splits)
      then have e: "s1 = s\<lparr>video_fifo := ?qw\<rparr>" by simp
      note es = evict_store(4,5,6,8) [OF ok m n, of f]
      have "set (VideoQueue_contents ?qw) \<subseteq> set (VideoQueue_contents ?q)"
        using es(3) tlsub by simp
      with e v es(1,2,4) m show ?thesis by (intro exI [of _ ?qw]) auto
    qed
  qed
qed

lemma seek_loop_done:
  "vs \<and> as \<Longrightarrow>
   AdjustSeekedPosition_loop fp t m vs as ps s =
     (BothSeeked, ps,
      (if IsVideoOpened s
       then s\<lparr>last_video_pts := CalculateVideoPts fp s (VideoQueue_front (video_fifo s)),
              delta_time_accumulator :=
                float_of_double fp (CalculateVideoPts fp s (VideoQueue_front (video_fifo s)))\<rparr>
       else s))"
  by (subst AdjustSeekedPosition_loop.simps) auto

lemma seek_loop_end:
  "\<not> (vs \<and> as) \<Longrightarrow> AdjustSeekedPosition_loop fp t m vs as [] s = (ReadEnded, [], s)"
  by (subst AdjustSeekedPosition_loop.simps) auto

lemma seek_loop_video:
  "\<not> (vs \<and> as) \<Longrightarrow> IsVideoOpened s \<Longrightarrow>
   AdjustSeekedPosition_loop fp t m vs as (VideoPacket vd # rest) s =
     (case AdjustSeekedPosition_video fp t m vd vs s of
        (Error, vs1, s1) \<Rightarrow> (AssertFailed, rest, s1)
      | (Success, vs1, s1) \<Rightarrow> AdjustSeekedPosition_loop fp t m vs1 as rest s1)"
  by (subst AdjustSeekedPosition_loop.simps) auto

lemma seek_loop_audio:
  "\<not> (vs \<and> as) \<Longrightarrow> IsAudioOpened s \<Longrightarrow>
   AdjustSeekedPosition_loop fp t m vs as (AudioPacket send_ok blocks end_ok # rest) s =
     (case AdjustSeekedPosition_audio fp t send_ok blocks end_ok as s of
        (Error, as1, s1) \<Rightarrow> (AssertFailed, rest, s1)
      | (Success, as1, s1) \<Rightarrow> AdjustSeekedPosition_loop fp t m vs as1 rest s1)"
  by (subst AdjustSeekedPosition_loop.simps) auto

lemma seek_loop_skip:
  "\<not> (vs \<and> as) \<Longrightarrow>
   (case p of VideoPacket vd \<Rightarrow> \<not> IsVideoOpened s
            | AudioPacket send_ok blocks end_ok \<Rightarrow> \<not> IsAudioOpened s
            | OtherPacket \<Rightarrow> True) \<Longrightarrow>
   AdjustSeekedPosition_loop fp t m vs as (p # rest) s
     = AdjustSeekedPosition_loop fp t m vs as rest s"
  by (subst AdjustSeekedPosition_loop.simps) (auto split: packet.splits)


lemma video_frames_Cons: "video_frames (p # ps) = video_frames [p] @ video_frames ps"
proof (cases p)
  case (VideoPacket vd)
  then show ?thesis by (cases vd) simp_all
qed simp_all

lemma audio_blocks_Cons: "audio_blocks (p # ps) = audio_blocks [p] @ audio_blocks ps"
  by (cases p) simp_all

lemma seek_post_refl: "e \<noteq> BothSeeked \<or> vs \<and> as \<Longrightarrow> seek_post fp t s vs as ps e s"
  by (auto simp: seek_post_def)

lemma seek_post_step:
  assumes st: "same_streams s s1"
    and v: "set (VideoQueue_contents (video_fifo s1)) \<subseteq>
              set (VideoQueue_contents (video_fifo s)) \<union>
              {f \<in> set (video_frames [p]). video_accepted fp t s f}"
    and a: "set (AudioQueue_contents (audio_fifo s1)) \<subseteq>
              set (AudioQueue_contents (audio_fifo s)) \<union>
              (\<Union>b \<in> {b \<in> set (audio_blocks [p]). audio_accepted fp t s b}. set (block_samples b))"
    and fv: "vs1 \<longrightarrow> vs \<or> (\<exists>f \<in> set (video_frames [p]). video_accepted fp t s f)"
    and fa: "as1 \<longrightarrow> as \<or> (\<exists>b \<in> set (audio_blocks [p]). audio_accepted fp t s b)"
    and post: "seek_post fp t s1 vs1 as1 ps e s'"
  shows "seek_post fp t s vs as (p # ps) e s'"
proof -
  note acc = same_streams_accepted(1,2) [OF st, of fp t]
  from post have p1: "same_streams s1 s'"
    and p2: "set (VideoQueue_contents (video_fifo s')) \<subseteq>
        set (VideoQueue_contents (video_fifo s1)) \<union>
        {f \<in> set (video_frames ps). video_accepted fp t s f}"
    and p3: "set (AudioQueue_contents (audio_fifo s')) \<subseteq>
        set (AudioQueue_contents (audio_fifo s1)) \<union>
        (\<Union>b \<in> {b \<in> set (audio_blocks ps). audio_accepted fp t s b}. set (block_samples b))"
    and p4: "e = BothSeeked \<longrightarrow>
         (vs1 \<or> (\<exists>f \<in> set (video_frames ps). video_accepted fp t s f)) \<and>
         (as1 \<or> (\<exists>b \<in> set (audio_blocks ps). audio_accepted fp t s b))"
    unfolding seek_post_def acc by blast+
  have c1: "same_streams s s'" using st p1 by (rule same_streams_trans)
  have vf: "set (video_frames (p # ps)) = set (video_frames [p]) \<union> set (video_frames ps)"
    by (subst video_frames_Cons) simp
  have ab: "set (audio_blocks (p # ps)) = set (audio_blocks [p]) \<union> set (audio_blocks ps)"
    by (subst audio_blocks_Cons) simp
  have c2: "set (VideoQueue_contents (video_fifo s')) \<subseteq>
        set (VideoQueue_contents (video_fifo s)) \<union>
        {f \<in> set (video_frames (p # ps)). video_accepted fp t s f}"
    using p2 v unfolding vf by blast
  have c3: "set (AudioQueue_contents (audio_fifo s')) \<subseteq>
        set (AudioQueue_contents (audio_fifo s)) \<union>
        (\<Union>b \<in> {b \<in> set (audio_blocks (p # ps)). audio_accepted fp t s b}. set (block_samples b))"
    using p3 a unfolding ab by blast
  have c4: "e = BothSeeked \<longrightarrow>
         (vs \<or> (\<exists>f \<in> set (video_frames (p # ps)). video_accepted fp t s f)) \<and>
         (as \<or> (\<exists>b \<in> set (audio_blocks (p # ps)). audio_accepted fp t s b))"
    using p4 fv fa unfolding vf ab by blast
  from c1 c2 c3 c4 show ?thesis unfolding seek_post_def by blast
qed


lemma seek_post_done:
  assumes "vs \<and> as" and "AdjustSeekedPosition_loop fp t m vs as ps s = (e, rest, s')"
  shows "seek_post fp t s vs as ps e s'"
proof -
  from assms have "e = BothSeeked"
    and "s' = (if IsVideoOpened s
       then s\<lparr>last_video_pts := CalculateVideoPts fp s (VideoQueue_front (video_fifo s)),
              delta_time_accumulator :=
                float_of_double fp (CalculateVideoPts fp s (VideoQueue_front (video_fifo s)))\<rparr>
       else s)"
    by (simp_all add: seek_loop_done)
  with assms(1) show ?thesis by (auto simp: seek_post_def same_streams_def)
qed

lemma video_frames_single:
  "{f \<in> set (video_frames [VideoPacket vd]). P f} = {f. vd = Received f \<and> P f}"
  by (cases vd) auto

lemma seek_post_skip:
  assumes "seek_post fp t s vs as ps e s'"
  shows "seek_post fp t s vs as (p # ps) e s'"
  using _ _ _ _ _ assms by (rule seek_post_step) simp_all

lemma seek_loop_post:
  assumes "IsVideoOpened s \<longrightarrow>
             VideoQueue_ok (video_fifo s) \<and> Suc m = VideoQueue_capacity (video_fifo s) \<and>
             VideoQueue_size (video_fifo s) \<le> m"
    and "AdjustSeekedPosition_loop fp t m vs as ps s = (e, rest, s')"
  shows "seek_post fp t s vs as ps e s'"
  using assms
proof (induction ps arbitrary: s vs as)
  case Nil
  show ?case
  proof (cases "vs \<and> as")
    case True
    then show ?thesis using Nil.prems(2) by (rule seek_post_done)
  next
    case False
    with Nil.prems(2) have "e = ReadEnded" "s' = s" by (simp_all add: seek_loop_end)
    then show ?thesis by (simp add: seek_post_refl)
  qed
next
  case (Cons p ps)
  note L = Cons.prems(2)
  show ?case
  proof (cases "vs \<and> as")
    case True
    then show ?thesis using L by (rule seek_post_done)
  next
    case nd: False
    show ?thesis
    proof (cases p)
      case OtherPacket
      with nd L have "AdjustSeekedPosition_loop fp t m vs as ps s = (e, rest, s')"
        by (simp add: seek_loop_skip)
      from Cons.IH [OF Cons.prems(1) this] show ?thesis by (rule seek_post_skip)
    next
      case (VideoPacket vd)
      show ?thesis
      proof (cases "IsVideoOpened s")
        case False
        with nd L VideoPacket have "AdjustSeekedPosition_loop fp t m vs as ps s = (e, rest, s')"
          by (simp add: seek_loop_skip)
        from Cons.IH [OF Cons.prems(1) this] show ?thesis by (rule seek_post_skip)
      next
        case True
        with Cons.prems(1) have ok: "VideoQueue_ok (video_fifo s)"
          and m: "Suc m = VideoQueue_capacity (video_fifo s)"
          and n: "VideoQueue_size (video_fifo s) \<le> m"
          by simp_all
        obtain r vs1 s1 where st: "AdjustSeekedPosition_video fp t m vd vs s = (r, vs1, s1)"
          by (cases "AdjustSeekedPosition_video fp t m vd vs s")
        from AdjustSeekedPosition_video_step [OF ok m n st] obtain q1 where
          s1: "s1 = s\<lparr>video_fifo := q1\<rparr>" and q1: "VideoQueue_ok q1"
            "Suc m = VideoQueue_capacity q1" "VideoQueue_size q1 \<le> m"
          and c1: "set (VideoQueue_contents q1) \<subseteq>
             set (VideoQueue_contents (video_fifo s)) \<union>
             {f. vd = Received f \<and> video_accepted fp t s f}"
          and f1: "vs1 \<longrightarrow> vs \<or> (\<exists>f. vd = Received f \<and> video_accepted fp t s f)"
          by blast
        have a1: "same_streams s s1" using s1 by (simp add: same_streams_def)
        have a2: "set (VideoQueue_contents (video_fifo s1)) \<subseteq>
              set (VideoQueue_contents (video_fifo s)) \<union>
              {f \<in> set (video_frames [p]). video_accepted fp t s f}"
          using c1 s1 by (simp add: VideoPacket video_frames_single)
        have a3: "set (AudioQueue_contents (audio_fifo s1)) \<subseteq>
              set (AudioQueue_contents (audio_fifo s)) \<union>
              (\<Union>b \<in> {b \<in> set (audio_blocks [p]). audio_accepted fp t s b}. set (block_samples b))"
          using s1 by simp
        have a4: "vs1 \<longrightarrow> vs \<or> (\<exists>f \<in> set (video_frames [p]). video_accepted fp t s f)"
          using f1 by (auto simp: VideoPacket)
        have a5: "as \<longrightarrow> as \<or> (\<exists>b \<in> set (audio_blocks [p]). audio_accepted fp t s b)" by simp
        have "seek_post fp t s1 vs1 as ps e s'"
        proof (cases r)
          case Error
          with nd True L VideoPacket st have "e = AssertFailed" "s' = s1"
            by (simp_all add: seek_loop_video)
          then show ?thesis by (simp add: seek_post_refl)
        next
          case Success
          with nd True L VideoPacket st
          have "AdjustSeekedPosition_loop fp t m vs1 as ps s1 = (e, rest, s')"
            by (simp add: seek_loop_video)
          moreover have "IsVideoOpened s1 \<longrightarrow>
             VideoQueue_ok (video_fifo s1) \<and> Suc m = VideoQueue_capacity (video_fifo s1) \<and>
             VideoQueue_size (video_fifo s1) \<le> m"
            using q1 s1 by simp
          ultimately show ?thesis by (intro Cons.IH)
        qed
        with a1 a2 a3 a4 a5 show ?thesis by (rule seek_post_step)
      qed
    next
      case (AudioPacket send_ok blocks end_ok)
      show ?thesis
      proof (cases "IsAudioOpened s")
        case False
        with nd L AudioPacket have "AdjustSeekedPosition_loop fp t m vs as ps s = (e, rest, s')"
          by (simp add: seek_loop_skip)
        from Cons.IH [OF Cons.prems(1) this] show ?thesis by (rule seek_post_skip)
      next
        case True
        obtain r as1 s1 where
          st: "AdjustSeekedPosition_audio fp t send_ok blocks end_ok as s = (r, as1, s1)"
          by (cases "AdjustSeekedPosition_audio fp t send_ok blocks end_ok as s")
        from AdjustSeekedPosition_audio_step [OF st]
        have v1: "video_fifo s1 = video_fifo s" and a1: "same_streams s s1"
          and c1: "set (AudioQueue_contents (audio_fifo s1)) \<subseteq>
             set (AudioQueue_contents (audio_fifo s)) \<union>
             (\<Union>b \<in> {b \<in> set blocks. audio_accepted fp t s b}. set (block_samples b))"
          and f1: "as1 \<longrightarrow> as \<or> (\<exists>b \<in> set blocks. audio_accepted fp t s b)"
          by blast+
        have a2: "set (VideoQueue_contents (video_fifo s1)) \<subseteq>
              set (VideoQueue_contents (video_fifo s)) \<union>
              {f \<in> set (video_frames [p]). video_accepted fp t s f}"
          using v1 by simp
        have a3: "set (AudioQueue_contents (audio_fifo s1)) \<subseteq>
              set (AudioQueue_contents (audio_fifo s)) \<union>
              (\<Union>b \<in> {b \<in> set (audio_blocks [p]). audio_accepted fp t s b}. set (block_samples b))"
          using c1 by (simp add: AudioPacket)
        have a4: "vs \<longrightarrow> vs \<or> (\<exists>f \<in> set (video_frames [p]). video_accepted fp t s f)" by simp
        have a5: "as1 \<longrightarrow> as \<or> (\<exists>b \<in> set (audio_blocks [p]). audio_accepted fp t s b)"
          using f1 by (simp add: AudioPacket)
        have "seek_post fp t s1 vs as1 ps e s'"
        proof (cases r)
          case Error
          with nd True L AudioPacket st have "e = AssertFailed" "s' = s1"
            by (simp_all add: seek_loop_audio)
          then show ?thesis by (simp add: seek_post_refl)
        next
          case Success
          with nd True L AudioPacket st
          have "AdjustSeekedPosition_loop fp t m vs as1 ps s1 = (e, rest, s')"
            by (simp add: seek_loop_audio)
          moreover have "IsVideoOpened s1 \<longrightarrow>
             VideoQueue_ok (video_fifo s1) \<and> Suc m = VideoQueue_capacity (video_fifo s1) \<and>
             VideoQueue_size (video_fifo s1) \<le> m"
            using Cons.prems(1) v1 same_streams_accepted(3) [OF a1] by simp
          ultimately show ?thesis by (intro Cons.IH)
        qed
        with a1 a2 a3 a4 a5 show ?thesis by (rule seek_post_step)
      qed
    qed
  qed
qed


lemma VideoQueue_clear_ok:
  assumes "VideoQueue_ok q"
  shows "VideoQueue_ok (VideoQueue_clear q)" and "VideoQueue_contents (VideoQueue_clear q) = []"
    and "VideoQueue_capacity (VideoQueue_clear q) = VideoQueue_capacity q"
  using assms
  by (auto simp: VideoQueue_ok_def VideoQueue_clear_def VideoQueue_contents_def
      VideoQueue_capacity_def)

lemma AudioQueue_clear_contents: "AudioQueue_contents (AudioQueue_clear a) = []"
  by (cases a) (simp_all add: AudioQueue_clear_def AudioQueue_contents_def
      av_audio_fifo_drain_def av_audio_fifo_size_def)

lemma seek_loop_video_only:
  assumes "IsVideoOpened s" and "\<not> IsAudioOpened s"
    and "VideoQueue_ok (video_fifo s)" and "Suc m = VideoQueue_capacity (video_fifo s)"
    and "VideoQueue_contents (video_fifo s) = []"
    and "AdjustSeekedPosition_loop fp t m False True ps s = (BothSeeked, rest, s')"
  shows "filter (video_accepted fp t s) (video_frames ps) \<noteq> [] \<and>
         VideoQueue_contents (video_fifo s') = [hd (filter (video_accepted fp t s) (video_frames ps))] \<and>
         last_video_pts s' =
           CalculateVideoPts fp s (hd (filter (video_accepted fp t s) (video_frames ps))) \<and>
         delta_time_accumulator s' =
           float_of_double fp
             (CalculateVideoPts fp s (hd (filter (video_accepted fp t s) (video_frames ps))))"
  using assms
proof (induction ps arbitrary: s)
  case Nil
  then show ?case by (simp add: seek_loop_end)
next
  case (Cons p ps)
  let ?q = "video_fifo s"
  note L = Cons.prems(6)
  have nd: "\<not> (False \<and> True)" by simp
  from Cons.prems(3) have c2: "2 \<le> VideoQueue_capacity ?q"
    by (simp add: VideoQueue_ok_def VideoQueue_capacity_def)
  have z: "VideoQueue_size ?q = 0"
    using VideoQueue_contents_length [of ?q] Cons.prems(5) by simp
  have lt: "VideoQueue_size ?q < VideoQueue_capacity ?q" using z c2 by simp
  have mz: "m \<noteq> VideoQueue_size ?q" using z c2 Cons.prems(4) by simp
  show ?case
  proof (cases p)
    case OtherPacket
    with L have "AdjustSeekedPosition_loop fp t m False True ps s = (BothSeeked, rest, s')"
      by (simp add: seek_loop_skip [OF nd])
    from Cons.IH [OF Cons.prems(1-5) this] show ?thesis by (simp add: OtherPacket)
  next
    case (AudioPacket send_ok blocks end_ok)
    with L Cons.prems(2)
    have "AdjustSeekedPosition_loop fp t m False True ps s = (BothSeeked, rest, s')"
      by (simp add: seek_loop_skip [OF nd])
    from Cons.IH [OF Cons.prems(1-5) this] show ?thesis by (simp add: AudioPacket)
  next
    case (VideoPacket vd)
    note U = seek_loop_video [OF nd Cons.prems(1), of fp t m vd ps]
    show ?thesis
    proof (cases vd)
      case SendFailed
      with L U VideoPacket show ?thesis
        by (simp add: AdjustSeekedPosition_video_def Let_def)
    next
      case ReceiveFailed
      with L U VideoPacket show ?thesis
        by (simp add: AdjustSeekedPosition_video_def Let_def)
    next
      case (Received f)
      let ?s2 = "s\<lparr>video_fifo := VideoQueue_write_back f ?q\<rparr>"
      have pts: "CalculateVideoPts fp ?s2 = CalculateVideoPts fp s"
        by (rule CalculateVideoPts_cong) simp
      show ?thesis
      proof (cases "video_accepted fp t s f")
        case True
        let ?q3 = "VideoQueue_push (VideoQueue_write_back f ?q)"
        let ?s3 = "s\<lparr>video_fifo := ?q3\<rparr>"
        have st: "AdjustSeekedPosition_video fp t m vd False s = (Success, True, ?s3)"
          using True mz pts
          by (simp add: AdjustSeekedPosition_video_def Let_def Received video_accepted_def)
        have c3: "VideoQueue_contents ?q3 = [f]"
          using VideoQueue_write_back_push_contents [OF Cons.prems(3) lt, of f] Cons.prems(5)
          by simp
        have ok3: "VideoQueue_ok ?q3"
          using Cons.prems(3) lt
          by (intro VideoQueue_push_ok VideoQueue_write_back_ok) simp_all
        have "length (VideoQueue_contents ?q3) = VideoQueue_size ?q3"
          by (rule VideoQueue_contents_length)
        then have n3: "0 < VideoQueue_size ?q3" by (simp only: c3) simp
        have fr: "VideoQueue_front ?q3 = f"
          by (simp only: VideoQueue_front_hd [OF ok3 n3] c3 list.sel)
        have o3: "IsVideoOpened ?s3" using Cons.prems(1) by (simp add: IsVideoOpened_def)
        have p3: "CalculateVideoPts fp ?s3 = CalculateVideoPts fp s"
          by (rule CalculateVideoPts_cong) simp
        from L have "AdjustSeekedPosition_loop fp t m True True ps ?s3 = (BothSeeked, rest, s')"
          by (simp add: VideoPacket U st)
        then have "s' = ?s3\<lparr>last_video_pts := CalculateVideoPts fp s f,
                              delta_time_accumulator :=
                                float_of_double fp (CalculateVideoPts fp s f)\<rparr>"
          using o3 by (simp add: seek_loop_done p3 fr)
        then show ?thesis using True c3 by (simp add: VideoPacket Received)
      next
        case False
        have st: "AdjustSeekedPosition_video fp t m vd False s = (Success, False, ?s2)"
          using False mz pts
          by (auto simp add: AdjustSeekedPosition_video_def Let_def Received video_accepted_def)
        from L have l2: "AdjustSeekedPosition_loop fp t m False True ps ?s2 = (BothSeeked, rest, s')"
          by (simp add: VideoPacket U st)
        have i1: "IsVideoOpened ?s2" "\<not> IsAudioOpened ?s2"
          using Cons.prems(1,2) by (simp_all add: IsVideoOpened_def IsAudioOpened_def)
        have i3: "VideoQueue_ok (video_fifo ?s2)"
          using Cons.prems(3) by (simp add: VideoQueue_write_back_ok)
        have i4: "Suc m = VideoQueue_capacity (video_fifo ?s2)" using Cons.prems(4) by simp
        have i5: "VideoQueue_contents (video_fifo ?s2) = []"
          using VideoQueue_write_back_contents [OF Cons.prems(3) lt, of f] Cons.prems(5) by simp
        have acc: "video_accepted fp t ?s2 = video_accepted fp t s"
          by (rule same_streams_accepted) (simp add: same_streams_def)
        from Cons.IH [OF i1 i3 i4 i5 l2] show ?thesis
          unfolding acc pts using False by (simp add: VideoPacket Received)
      qed
    qed
  qed
qed


lemma Seek_prepare_props:
  "same_streams s (Seek_prepare ps s)"
  "demux (Seek_prepare ps s) = ps"
  "IsVideoOpened s \<Longrightarrow> video_fifo (Seek_prepare ps s) = VideoQueue_clear (video_fifo s)"
  "IsAudioOpened s \<Longrightarrow> audio_fifo (Seek_prepare ps s) = AudioQueue_clear (audio_fifo s)"
  by (simp_all add: Seek_prepare_def same_streams_def Let_def Pause_def StopDecodingThread_def
      IsVideoOpened_def IsAudioOpened_def IsPaused_def)

lemma AdjustSeekedPosition_by_exit:
  "AdjustSeekedPosition fp t s =
     (if fst (AdjustSeekedPosition_exit fp t s) = AssertFailed then Error else Success,
      snd (AdjustSeekedPosition_exit fp t s))"
  by (cases "AdjustSeekedPosition_exit fp t s"; cases "fst (AdjustSeekedPosition_exit fp t s)")
     (simp_all add: AdjustSeekedPosition_def)

lemma Seek_by_exit:
  assumes "IsVideoOpened s \<or> IsAudioOpened s"
    and "AdjustSeekedPosition_exit fp t (Seek_prepare ps s) = (e, s')"
  shows "Seek fp t (Some ps) s =
           (if e = AssertFailed then Error else Success, Play (StartDecodingThread s'))"
proof -
  have "Seek fp t (Some ps) s =
      (case AdjustSeekedPosition fp t (Seek_prepare ps s) of
         (result, s5) \<Rightarrow> (result, Play (StartDecodingThread s5)))"
    using assms(1)
    by (simp add: Seek_def Seek_prepare_def Let_def IsVideoOpened_def IsAudioOpened_def
        Pause_def StopDecodingThread_def IsPaused_def)
  then show ?thesis by (simp add: AdjustSeekedPosition_by_exit assms(2))
qed

lemma AudioQueue_push_all_Nil [simp]: "AudioQueue_push_all [] q = q"
  by (simp add: AudioQueue_push_all_def)

lemma AudioQueue_push_all_Cons [simp]:
  "AudioQueue_push_all (d # ds) q = AudioQueue_push_all ds (snd (AudioQueue_push d q))"
  by (simp add: AudioQueue_push_all_def)

lemma AudioQueue_push_all_append [simp]:
  "AudioQueue_push_all (ds @ es) q = AudioQueue_push_all es (AudioQueue_push_all ds q)"
  by (simp add: AudioQueue_push_all_def)

lemma flush_resampler_exact:
  assumes "flush_resampler fl s = (Success, s')"
  shows "s' = s\<lparr>audio_fifo := AudioQueue_push_all (map samples_of fl) (audio_fifo s)\<rparr>"
  using assms
proof (induction fl s rule: flush_resampler.induct)
  case (1 s)
  then show ?case by simp
next
  case (2 rest s)
  then show ?case by simp
next
  case (3 d rest s)
  then show ?case by (simp add: samples_of_def)
qed

lemma AdjustSeekedPosition_receive_exact:
  assumes "AdjustSeekedPosition_receive fp t bs end_ok as s = (Success, as1, s1)"
  shows "audio_fifo s1 =
           AudioQueue_push_all (concat (map block_chunks (filter (audio_accepted fp t s) bs)))
             (audio_fifo s) \<and>
         as1 = (as \<or> (\<exists>b \<in> set bs. audio_accepted fp t s b))"
  using assms
proof (induction bs arbitrary: as s)
  case Nil
  then show ?case by (auto split: if_splits)
next
  case (Cons b bs)
  show ?case
  proof (cases "audio_accepted fp t s b")
    case False
    then have "AdjustSeekedPosition_receive fp t (b # bs) end_ok as s
        = AdjustSeekedPosition_receive fp t bs end_ok as s"
      by (auto simp: audio_accepted_def)
    with Cons.prems have "AdjustSeekedPosition_receive fp t bs end_ok as s = (Success, as1, s1)"
      by simp
    from Cons.IH [OF this] False show ?thesis by simp
  next
    case True
    let ?s1 = "if as = False
               then s\<lparr>audio_time := CalculateAudioPts fp s (ab_frame b),
                      audio_frames_consumed :=
                        size_t_of_double fp
                          (double_mul fp (CalculateAudioPts fp s (ab_frame b))
                             (double_of_int fp (audio_sample_rate s)))\<rparr>
               else s"
    have f1: "same_streams s ?s1" "audio_fifo ?s1 = audio_fifo s"
      by (simp_all add: same_streams_def)
    show ?thesis
    proof (cases "ab_converted b")
      case None
      with True Cons.prems show ?thesis
        by (auto simp: audio_accepted_def Let_def)
    next
      case (Some d)
      let ?s2 = "?s1\<lparr>audio_fifo := snd (AudioQueue_push d (audio_fifo ?s1))\<rparr>"
      obtain r2 s3 where fl: "flush_resampler (ab_flushed b) ?s2 = (r2, s3)"
        by (cases "flush_resampler (ab_flushed b) ?s2")
      show ?thesis
      proof (cases r2)
        case Error
        with True Some fl Cons.prems show ?thesis
          by (auto simp: audio_accepted_def Let_def)
      next
        case Success
        with True Some fl Cons.prems
        have rec: "AdjustSeekedPosition_receive fp t bs end_ok True s3 = (Success, as1, s1)"
          by (auto simp: audio_accepted_def Let_def)
        from fl Success have
          s3: "s3 = ?s2\<lparr>audio_fifo :=
                      AudioQueue_push_all (map samples_of (ab_flushed b)) (audio_fifo ?s2)\<rparr>"
          by (intro flush_resampler_exact) simp
        have a3: "audio_fifo s3 = AudioQueue_push_all (block_chunks b) (audio_fifo s)"
          by (subst s3) (simp add: block_chunks_def Some samples_of_def f1)
        have st3: "same_streams s s3"
          by (subst s3) (simp add: same_streams_def)
        note eq = same_streams_accepted(2) [OF st3, of fp t]
        from Cons.IH [OF rec] show ?thesis
          unfolding eq a3 using True by simp
      qed
    qed
  qed
qed

lemma AdjustSeekedPosition_audio_exact:
  assumes "AdjustSeekedPosition_audio fp t send_ok bs end_ok as s = (Success, as1, s1)"
  shows "audio_fifo s1 =
           AudioQueue_push_all (concat (map block_chunks (filter (audio_accepted fp t s) bs)))
             (audio_fifo s) \<and>
         as1 = (as \<or> (\<exists>b \<in> set bs. audio_accepted fp t s b))"
proof (cases send_ok)
  case True
  with assms have "AdjustSeekedPosition_receive fp t bs end_ok as s = (Success, as1, s1)"
    by (simp add: AdjustSeekedPosition_audio_def)
  then show ?thesis by (rule AdjustSeekedPosition_receive_exact)
next
  case False
  with assms show ?thesis by (simp add: AdjustSeekedPosition_audio_def)
qed

lemma AdjustSeekedPosition_video_exact:
  assumes ok: "VideoQueue_ok (video_fifo s)"
    and m: "Suc m = VideoQueue_capacity (video_fifo s)"
    and n: "VideoQueue_size (video_fifo s) \<le> m"
    and r: "AdjustSeekedPosition_video fp t m vd vs s = (r, vs1, s1)"
  shows "VideoQueue_contents (video_fifo s1) =
           resync_video (video_accepted fp t s) m (VideoQueue_contents (video_fifo s)) vd \<and>
         (r = Success \<longrightarrow> vs1 = (vs \<or> (\<exists>f. vd = Received f \<and> video_accepted fp t s f)))"
proof -
  let ?q = "video_fifo s"
  let ?qe = "if m = VideoQueue_size ?q then VideoQueue_pop ?q else ?q"
  let ?se = "if m = VideoQueue_size ?q then s\<lparr>video_fifo := VideoQueue_pop ?q\<rparr> else s"
  let ?xs1 = "if m = VideoQueue_size ?q then tl (VideoQueue_contents ?q) else VideoQueue_contents ?q"
  have s0: "?se = s\<lparr>video_fifo := ?qe\<rparr>"
    by (cases "m = VideoQueue_size ?q") simp_all
  have len: "length (VideoQueue_contents ?q) = VideoQueue_size ?q"
    by (rule VideoQueue_contents_length)
  have c0: "VideoQueue_contents ?qe = ?xs1"
    using ok by (simp add: VideoQueue_pop_contents)
  show ?thesis
  proof (cases vd)
    case SendFailed
    with r have "s1 = ?se" "r = Error"
      by (simp_all add: AdjustSeekedPosition_video_def Let_def)
    with s0 have "s1 = s\<lparr>video_fifo := ?qe\<rparr>" by simp
    with c0 \<open>r = Error\<close> show ?thesis
      by (simp add: resync_video_def SendFailed len)
  next
    case ReceiveFailed
    let ?q1 = "VideoQueue_write_back av_frame_alloc ?qe"
    from r ReceiveFailed
    have "s1 = ?se\<lparr>video_fifo := VideoQueue_write_back av_frame_alloc (video_fifo ?se)\<rparr>"
      and v: "r = Error"
      by (simp_all add: AdjustSeekedPosition_video_def Let_def)
    then have e: "s1 = s\<lparr>video_fifo := ?q1\<rparr>" by simp
    note es = evict_store(6) [OF ok m n, of av_frame_alloc]
    from e v es show ?thesis
      by (simp add: resync_video_def ReceiveFailed len)
  next
    case (Received f)
    let ?qw = "VideoQueue_write_back f ?qe"
    let ?s2 = "?se\<lparr>video_fifo := VideoQueue_write_back f (video_fifo ?se)\<rparr>"
    have s2: "?s2 = s\<lparr>video_fifo := ?qw\<rparr>" by simp
    have pts: "CalculateVideoPts fp ?s2 f = CalculateVideoPts fp s f"
      by (simp add: CalculateVideoPts_def)
    show ?thesis
    proof (cases "video_accepted fp t s f")
      case True
      let ?q1 = "VideoQueue_push ?qw"
      from r Received True pts
      have "s1 = ?s2\<lparr>video_fifo := VideoQueue_push (video_fifo ?s2)\<rparr>" and v: "vs1 = True"
        by (simp_all add: AdjustSeekedPosition_video_def Let_def video_accepted_def)
      then have e: "s1 = s\<lparr>video_fifo := ?q1\<rparr>" by simp
      note es = evict_store(3) [OF ok m n, of f]
      from e v es True show ?thesis
        by (simp add: resync_video_def Received len)
    next
      case False
      from r Received False pts have "s1 = ?s2" and v: "vs1 = vs"
        by (auto simp add: AdjustSeekedPosition_video_def Let_def video_accepted_def
            split: if_splits)
      then have e: "s1 = s\<lparr>video_fifo := ?qw\<rparr>" by simp
      note es = evict_store(6) [OF ok m n, of f]
      from e v es False show ?thesis
        by (simp add: resync_video_def Received len)
    qed
  qed
qed


lemma video_outcomes_Cons: "video_outcomes (p # ps) = video_outcomes [p] @ video_outcomes ps"
  by (cases p) simp_all

lemma seek_trace_refl:
  assumes "same_streams s s'" and "video_fifo s' = video_fifo s" and "audio_fifo s' = audio_fifo s"
    and "e \<noteq> AssertFailed \<longrightarrow> (e = BothSeeked) = (vs \<and> as)"
  shows "seek_trace fp t m s vs as [] e s'"
  using assms by (simp add: seek_trace_def)

lemma seek_trace_failed:
  assumes "same_streams s s1"
    and "IsVideoOpened s \<longrightarrow>
           VideoQueue_contents (video_fifo s1) =
             foldl (resync_video (video_accepted fp t s) m) (VideoQueue_contents (video_fifo s))
               (video_outcomes [p])"
  shows "seek_trace fp t m s vs as [p] AssertFailed s1"
  using assms by (simp add: seek_trace_def)

lemma seek_trace_step:
  assumes st: "same_streams s s1"
    and v: "IsVideoOpened s \<longrightarrow>
              VideoQueue_contents (video_fifo s1) =
                foldl (resync_video (video_accepted fp t s) m) (VideoQueue_contents (video_fifo s))
                  (video_outcomes [p])"
    and a: "IsAudioOpened s \<longrightarrow>
              audio_fifo s1 =
                AudioQueue_push_all
                  (concat (map block_chunks (filter (audio_accepted fp t s) (audio_blocks [p]))))
                  (audio_fifo s)"
    and fv: "vs1 = (vs \<or> IsVideoOpened s \<and>
                      (\<exists>f \<in> set (video_frames [p]). video_accepted fp t s f))"
    and fa: "as1 = (as \<or> IsAudioOpened s \<and>
                      (\<exists>b \<in> set (audio_blocks [p]). audio_accepted fp t s b))"
    and post: "seek_trace fp t m s1 vs1 as1 consumed e s'"
  shows "seek_trace fp t m s vs as (p # consumed) e s'"
proof -
  note acc = same_streams_accepted(1,2) [OF st, of fp t] same_streams_accepted(3,4) [OF st]
  from post have p1: "same_streams s1 s'"
    and p2: "IsVideoOpened s \<longrightarrow>
         VideoQueue_contents (video_fifo s') =
           foldl (resync_video (video_accepted fp t s) m) (VideoQueue_contents (video_fifo s1))
             (video_outcomes consumed)"
    and p3: "e \<noteq> AssertFailed \<longrightarrow> IsAudioOpened s \<longrightarrow>
            audio_fifo s' =
              AudioQueue_push_all
                (concat (map block_chunks (filter (audio_accepted fp t s) (audio_blocks consumed))))
                (audio_fifo s1)"
    and p4: "e \<noteq> AssertFailed \<longrightarrow> (e = BothSeeked) =
           ((vs1 \<or> IsVideoOpened s \<and> (\<exists>f \<in> set (video_frames consumed). video_accepted fp t s f)) \<and>
            (as1 \<or> IsAudioOpened s \<and> (\<exists>b \<in> set (audio_blocks consumed). audio_accepted fp t s b)))"
    unfolding seek_trace_def acc by blast+
  have c1: "same_streams s s'" using st p1 by (rule same_streams_trans)
  have vo: "video_outcomes (p # consumed) = video_outcomes [p] @ video_outcomes consumed"
    by (rule video_outcomes_Cons)
  have vf: "set (video_frames (p # consumed)) = set (video_frames [p]) \<union> set (video_frames consumed)"
    by (subst video_frames_Cons) simp
  have ab: "audio_blocks (p # consumed) = audio_blocks [p] @ audio_blocks consumed"
    by (rule audio_blocks_Cons)
  have c2: "IsVideoOpened s \<longrightarrow>
         VideoQueue_contents (video_fifo s') =
           foldl (resync_video (video_accepted fp t s) m) (VideoQueue_contents (video_fifo s))
             (video_outcomes (p # consumed))"
    using p2 v unfolding vo by simp
  have c3: "e \<noteq> AssertFailed \<longrightarrow> IsAudioOpened s \<longrightarrow>
            audio_fifo s' =
              AudioQueue_push_all
                (concat (map block_chunks
                   (filter (audio_accepted fp t s) (audio_blocks (p # consumed)))))
                (audio_fifo s)"
    using p3 a unfolding ab by simp
  have c4: "e \<noteq> AssertFailed \<longrightarrow> (e = BothSeeked) =
           ((vs \<or> IsVideoOpened s \<and>
               (\<exists>f \<in> set (video_frames (p # consumed)). video_accepted fp t s f)) \<and>
            (as \<or> IsAudioOpened s \<and>
               (\<exists>b \<in> set (audio_blocks (p # consumed)). audio_accepted fp t s b)))"
    using p4 unfolding vf ab fv fa by auto
  from c1 c2 c3 c4 show ?thesis unfolding seek_trace_def by blast
qed

lemma seek_trace_skip:
  assumes "case p of VideoPacket vd \<Rightarrow> \<not> IsVideoOpened s
                   | AudioPacket send_ok blocks end_ok \<Rightarrow> \<not> IsAudioOpened s
                   | OtherPacket \<Rightarrow> True"
    and "seek_trace fp t m s vs as consumed e s'"
  shows "seek_trace fp t m s vs as (p # consumed) e s'"
proof (rule seek_trace_step [OF same_streams_refl _ _ _ _ assms(2)])
  show "IsVideoOpened s \<longrightarrow>
        VideoQueue_contents (video_fifo s) =
          foldl (resync_video (video_accepted fp t s) m) (VideoQueue_contents (video_fifo s))
            (video_outcomes [p])"
    using assms(1) by (cases p) simp_all
  show "IsAudioOpened s \<longrightarrow>
        audio_fifo s =
          AudioQueue_push_all
            (concat (map block_chunks (filter (audio_accepted fp t s) (audio_blocks [p]))))
            (audio_fifo s)"
    using assms(1) by (cases p) simp_all
  show "vs = (vs \<or> IsVideoOpened s \<and> (\<exists>f \<in> set (video_frames [p]). video_accepted fp t s f))"
  proof (cases p)
    case (VideoPacket vd)
    with assms(1) show ?thesis by simp
  qed simp_all
  show "as = (as \<or> IsAudioOpened s \<and> (\<exists>b \<in> set (audio_blocks [p]). audio_accepted fp t s b))"
    using assms(1) by (cases p) simp_all
qed

lemma seek_loop_done_facts:
  assumes "vs \<and> as" and "AdjustSeekedPosition_loop fp t m vs as ps s = (e, rest, s')"
  shows "e = BothSeeked" and "rest = ps" and "same_streams s s'"
    and "video_fifo s' = video_fifo s" and "audio_fifo s' = audio_fifo s"
proof -
  have eq: "(e, rest, s') =
      (BothSeeked, ps,
       (if IsVideoOpened s
        then s\<lparr>last_video_pts := CalculateVideoPts fp s (VideoQueue_front (video_fifo s)),
               delta_time_accumulator :=
                 float_of_double fp (CalculateVideoPts fp s (VideoQueue_front (video_fifo s)))\<rparr>
        else s))"
    using seek_loop_done [OF assms(1), of fp t m ps s] assms(2) by (simp only:)
  then show "e = BothSeeked" and "rest = ps" by simp_all
  from eq have s': "s' =
       (if IsVideoOpened s
        then s\<lparr>last_video_pts := CalculateVideoPts fp s (VideoQueue_front (video_fifo s)),
               delta_time_accumulator :=
                 float_of_double fp (CalculateVideoPts fp s (VideoQueue_front (video_fifo s)))\<rparr>
        else s)"
    by simp
  show "same_streams s s'" by (subst s') (simp add: same_streams_def)
  show "video_fifo s' = video_fifo s" by (subst s') simp
  show "audio_fifo s' = audio_fifo s" by (subst s') simp
qed

lemma seek_loop_trace:
  assumes "IsVideoOpened s \<longrightarrow>
             VideoQueue_ok (video_fifo s) \<and> Suc m = VideoQueue_capacity (video_fifo s) \<and>
             VideoQueue_size (video_fifo s) \<le> m"
    and "AdjustSeekedPosition_loop fp t m vs as ps s = (e, rest, s')"
  shows "\<exists>consumed. ps = consumed @ rest \<and> seek_trace fp t m s vs as consumed e s' \<and>
           (e = ReadEnded \<longrightarrow> rest = [])"
  using assms
proof (induction ps arbitrary: s vs as)
  case Nil
  show ?case
  proof (cases "vs \<and> as")
    case True
    note d = seek_loop_done_facts [OF True Nil.prems(2)]
    from d(3,4,5) have "seek_trace fp t m s vs as [] e s'"
      by (rule seek_trace_refl) (simp add: d(1) True)
    with d(1,2) show ?thesis by simp
  next
    case False
    with Nil.prems(2) have "e = ReadEnded" "s' = s" "rest = []" by (simp_all add: seek_loop_end)
    with False show ?thesis by (simp add: seek_trace_refl)
  qed
next
  case (Cons p ps)
  note L = Cons.prems(2)
  show ?case
  proof (cases "vs \<and> as")
    case True
    note d = seek_loop_done_facts [OF True L]
    from d(3,4,5) have "seek_trace fp t m s vs as [] e s'"
      by (rule seek_trace_refl) (simp add: d(1) True)
    with d(1,2) have "p # ps = [] @ rest \<and> seek_trace fp t m s vs as [] e s' \<and>
        (e = ReadEnded \<longrightarrow> rest = [])"
      by simp
    then show ?thesis by blast
  next
    case nd: False
    have skip: ?thesis
      if k: "case p of VideoPacket vd \<Rightarrow> \<not> IsVideoOpened s
                   | AudioPacket send_ok blocks end_ok \<Rightarrow> \<not> IsAudioOpened s
                   | OtherPacket \<Rightarrow> True"
    proof -
      from nd L k have "AdjustSeekedPosition_loop fp t m vs as ps s = (e, rest, s')"
        by (simp add: seek_loop_skip)
      from Cons.IH [OF Cons.prems(1) this] obtain consumed where
        c: "ps = consumed @ rest" "seek_trace fp t m s vs as consumed e s'"
          "e = ReadEnded \<longrightarrow> rest = []"
        by blast
      from k c(2) have "seek_trace fp t m s vs as (p # consumed) e s'" by (rule seek_trace_skip)
      with c(1,3) have "p # ps = (p # consumed) @ rest \<and>
          seek_trace fp t m s vs as (p # consumed) e s' \<and> (e = ReadEnded \<longrightarrow> rest = [])"
        by simp
      then show ?thesis by blast
    qed
    show ?thesis
    proof (cases p)
      case OtherPacket
      then show ?thesis by (intro skip) simp
    next
      case (VideoPacket vd)
      show ?thesis
      proof (cases "IsVideoOpened s")
        case False
        then show ?thesis by (intro skip) (simp add: VideoPacket)
      next
        case True
        with Cons.prems(1) have ok: "VideoQueue_ok (video_fifo s)"
          and m: "Suc m = VideoQueue_capacity (video_fifo s)"
          and n: "VideoQueue_size (video_fifo s) \<le> m"
          by simp_all
        obtain r vs1 s1 where st: "AdjustSeekedPosition_video fp t m vd vs s = (r, vs1, s1)"
          by (cases "AdjustSeekedPosition_video fp t m vd vs s")
        from AdjustSeekedPosition_video_step [OF ok m n st] obtain q1 where
          s1: "s1 = s\<lparr>video_fifo := q1\<rparr>" and q1: "VideoQueue_ok q1"
            "Suc m = VideoQueue_capacity q1" "VideoQueue_size q1 \<le> m"
          by blast
        from AdjustSeekedPosition_video_exact [OF ok m n st]
        have x1: "VideoQueue_contents (video_fifo s1) =
             resync_video (video_accepted fp t s) m (VideoQueue_contents (video_fifo s)) vd"
          and x2: "r = Success \<longrightarrow>
             vs1 = (vs \<or> (\<exists>f. vd = Received f \<and> video_accepted fp t s f))"
          by blast+
        have a1: "same_streams s s1" using s1 by (simp add: same_streams_def)
        have a2: "IsVideoOpened s \<longrightarrow>
              VideoQueue_contents (video_fifo s1) =
                foldl (resync_video (video_accepted fp t s) m)
                  (VideoQueue_contents (video_fifo s)) (video_outcomes [p])"
          using x1 by (simp add: VideoPacket)
        have a3: "IsAudioOpened s \<longrightarrow>
              audio_fifo s1 =
                AudioQueue_push_all
                  (concat (map block_chunks
                     (filter (audio_accepted fp t s) (audio_blocks [p]))))
                  (audio_fifo s)"
          using s1 by (simp add: VideoPacket)
        have a5: "as = (as \<or> IsAudioOpened s \<and>
                      (\<exists>b \<in> set (audio_blocks [p]). audio_accepted fp t s b))"
          by (simp add: VideoPacket)
        show ?thesis
        proof (cases r)
          case Error
          with nd True L VideoPacket st have "e = AssertFailed" "s' = s1" "rest = ps"
            by (simp_all add: seek_loop_video)
          moreover have "seek_trace fp t m s vs as [p] AssertFailed s1"
            using a1 a2 by (rule seek_trace_failed)
          ultimately have "p # ps = [p] @ rest \<and> seek_trace fp t m s vs as [p] e s' \<and>
              (e = ReadEnded \<longrightarrow> rest = [])"
            by simp
          then show ?thesis by blast
        next
          case Success
          with nd True L VideoPacket st
          have "AdjustSeekedPosition_loop fp t m vs1 as ps s1 = (e, rest, s')"
            by (simp add: seek_loop_video)
          moreover have "IsVideoOpened s1 \<longrightarrow>
             VideoQueue_ok (video_fifo s1) \<and> Suc m = VideoQueue_capacity (video_fifo s1) \<and>
             VideoQueue_size (video_fifo s1) \<le> m"
            using q1 s1 by simp
          ultimately obtain consumed where
            c: "ps = consumed @ rest" "seek_trace fp t m s1 vs1 as consumed e s'"
              "e = ReadEnded \<longrightarrow> rest = []"
            using Cons.IH by blast
          have a4: "vs1 = (vs \<or> IsVideoOpened s \<and>
                      (\<exists>f \<in> set (video_frames [p]). video_accepted fp t s f))"
            using x2 Success True by (cases vd) (auto simp: VideoPacket)
          from a1 a2 a3 a4 a5 c(2)
          have "seek_trace fp t m s vs as (p # consumed) e s'" by (rule seek_trace_step)
          with c(1,3) have "p # ps = (p # consumed) @ rest \<and>
              seek_trace fp t m s vs as (p # consumed) e s' \<and> (e = ReadEnded \<longrightarrow> rest = [])"
            by simp
          then show ?thesis by blast
        qed
      qed
    next
      case (AudioPacket send_ok blocks end_ok)
      show ?thesis
      proof (cases "IsAudioOpened s")
        case False
        then show ?thesis by (intro skip) (simp add: AudioPacket)
      next
        case True
        obtain r as1 s1 where
          st: "AdjustSeekedPosition_audio fp t send_ok blocks end_ok as s = (r, as1, s1)"
          by (cases "AdjustSeekedPosition_audio fp t send_ok blocks end_ok as s")
        from AdjustSeekedPosition_audio_step [OF st]
        have v1: "video_fifo s1 = video_fifo s" and a1: "same_streams s s1"
          by blast+
        have a2: "IsVideoOpened s \<longrightarrow>
              VideoQueue_contents (video_fifo s1) =
                foldl (resync_video (video_accepted fp t s) m)
                  (VideoQueue_contents (video_fifo s)) (video_outcomes [p])"
          using v1 by (simp add: AudioPacket)
        have a4: "vs = (vs \<or> IsVideoOpened s \<and>
                      (\<exists>f \<in> set (video_frames [p]). video_accepted fp t s f))"
          by (simp add: AudioPacket)
        show ?thesis
        proof (cases r)
          case Error
          with nd True L AudioPacket st have "e = AssertFailed" "s' = s1" "rest = ps"
            by (simp_all add: seek_loop_audio)
          moreover have "seek_trace fp t m s vs as [p] AssertFailed s1"
            using a1 a2 by (rule seek_trace_failed)
          ultimately have "p # ps = [p] @ rest \<and> seek_trace fp t m s vs as [p] e s' \<and>
              (e = ReadEnded \<longrightarrow> rest = [])"
            by simp
          then show ?thesis by blast
        next
          case Success
          with nd True L AudioPacket st
          have "AdjustSeekedPosition_loop fp t m vs as1 ps s1 = (e, rest, s')"
            by (simp add: seek_loop_audio)
          moreover have "IsVideoOpened s1 \<longrightarrow>
             VideoQueue_ok (video_fifo s1) \<and> Suc m = VideoQueue_capacity (video_fifo s1) \<and>
             VideoQueue_size (video_fifo s1) \<le> m"
            using Cons.prems(1) v1 same_streams_accepted(3) [OF a1] by simp
          ultimately obtain consumed where
            c: "ps = consumed @ rest" "seek_trace fp t m s1 vs as1 consumed e s'"
              "e = ReadEnded \<longrightarrow> rest = []"
            using Cons.IH by blast
          from st Success AdjustSeekedPosition_audio_exact [of fp t send_ok blocks end_ok as s as1 s1]
          have x1: "audio_fifo s1 =
               AudioQueue_push_all
                 (concat (map block_chunks (filter (audio_accepted fp t s) blocks)))
                 (audio_fifo s)"
            and x2: "as1 = (as \<or> (\<exists>b \<in> set blocks. audio_accepted fp t s b))"
            by simp_all
          have a3: "IsAudioOpened s \<longrightarrow>
              audio_fifo s1 =
                AudioQueue_push_all
                  (concat (map block_chunks
                     (filter (audio_accepted fp t s) (audio_blocks [p]))))
                  (audio_fifo s)"
            using x1 by (simp add: AudioPacket)
          have a5: "as1 = (as \<or> IsAudioOpened s \<and>
                      (\<exists>b \<in> set (audio_blocks [p]). audio_accepted fp t s b))"
            using x2 True by (simp add: AudioPacket)
          from a1 a2 a3 a4 a5 c(2)
          have "seek_trace fp t m s vs as (p # consumed) e s'" by (rule seek_trace_step)
          with c(1,3) have "p # ps = (p # consumed) @ rest \<and>
              seek_trace fp t m s vs as (p # consumed) e s' \<and> (e = ReadEnded \<longrightarrow> rest = [])"
            by simp
          then show ?thesis by blast
        qed
      qed
    qed
  qed
qed


lemma AudioQueue_push_within_space:
  assumes "AudioQueue_ok q"
    and "int (length data) \<le> AudioQueue_capacity q - AudioQueue_size q"
  shows "AudioQueue_push data q =
           (int (length data),
            Some \<lparr>af_samples = AudioQueue_contents q @ data,
                  allocated_samples = AudioQueue_capacity q\<rparr>)"
proof -
  from assms(1) obtain af where "q = Some af"
    and "int (length (af_samples af)) \<le> allocated_samples af"
    by (rule AudioQueue_ok_SomeE)
  with assms(2) show ?thesis
    by (simp add: audio_fifo_defs Let_def)
qed

lemma AudioQueue_push_all_within_space:
  assumes "AudioQueue_ok q"
    and "int (length (concat ds)) \<le> AudioQueue_capacity q - AudioQueue_size q"
  shows "AudioQueue_contents (AudioQueue_push_all ds q) = AudioQueue_contents q @ concat ds"
  using assms
proof (induction ds arbitrary: q)
  case Nil
  then show ?case by simp
next
  case (Cons d ds)
  let ?q1 = "snd (AudioQueue_push d q)"
  from Cons.prems(2) have sp: "int (length d) \<le> AudioQueue_capacity q - AudioQueue_size q"
    by simp
  note p = AudioQueue_push_within_space [OF Cons.prems(1) sp]
  have ok1: "AudioQueue_ok ?q1" using Cons.prems(1) by (rule AudioQueue_push_ok)
  have c1: "AudioQueue_contents ?q1 = AudioQueue_contents q @ d"
    and k1: "AudioQueue_capacity ?q1 = AudioQueue_capacity q"
    and z1: "AudioQueue_size ?q1 = AudioQueue_size q + int (length d)"
    by (simp_all add: p AudioQueue_contents_def AudioQueue_capacity_def AudioQueue_size_def
        av_audio_fifo_space_def av_audio_fifo_size_def split: option.splits)
  have "int (length (concat ds)) \<le> AudioQueue_capacity ?q1 - AudioQueue_size ?q1"
    using Cons.prems(2) by (simp add: k1 z1)
  from Cons.IH [OF ok1 this] show ?case by (simp add: c1)
qed

lemma AudioQueue_clear_ok:
  assumes "AudioQueue_ok q"
  shows "AudioQueue_ok (AudioQueue_clear q)"
    and "AudioQueue_capacity (AudioQueue_clear q) = AudioQueue_capacity q"
    and "AudioQueue_size (AudioQueue_clear q) = 0"
proof -
  from assms(1) obtain af where "q = Some af"
    and "int (length (af_samples af)) \<le> allocated_samples af"
    by (rule AudioQueue_ok_SomeE)
  then show "AudioQueue_ok (AudioQueue_clear q)"
    and "AudioQueue_capacity (AudioQueue_clear q) = AudioQueue_capacity q"
    and "AudioQueue_size (AudioQueue_clear q) = 0"
    by (simp_all add: AudioQueue_clear_def AudioQueue_ok_def audio_fifo_defs)
qed

lemma concat_block_chunks: "concat (concat (map block_chunks bs)) = concat (map block_samples bs)"
  by (induction bs) (simp_all add: block_chunks_def block_samples_def)

text \<open>
  C7, amended: for every successful coarse seek to the time \<open>t\<close> on an open object
  (the video queue in order when video is open) and for every floating-point arithmetic,
  the re-synchronisation loop reads a prefix \<open>consumed\<close> of the packets the
  demuxer delivers, and:

  \<^item> it never pushes a decoded video frame or audio block whose timestamp is not at or
    after \<open>t\<close>: afterwards the video queue holds only accepted frames and the audio
    queue only samples of accepted audio blocks;

  \<^item> the video queue holds exactly what results from treating the video packets read one
    after the other, each one first evicting the oldest frame when \<^verbatim>\<open>capacity() - 1\<close>
    frames are queued and then appending its frame if that is accepted;

  \<^item> unless a decoding step has failed, the audio queue is the one obtained by pushing the
    samples of every accepted block read, in order; when these fit into the capacity, the
    queue holds exactly them;

  \<^item> the loop ends with each open stream having produced at least one decoded unit at or
    after \<open>t\<close> among the packets read (\<open>BothSeeked\<close>); or when the demuxer
    reports the end of the file or an error while an open stream has produced no such
    unit (\<open>ReadEnded\<close>, \<^verbatim>\<open>Seek\<close> still returns success); or when a decoding step
    fails (\<open>AssertFailed\<close>, \<^verbatim>\<open>Seek\<close> returns an error);

  \<^item> when video is the only open stream and the loop ends with \<open>BothSeeked\<close>, it ends
    right after the first accepted frame, the queue holds exactly that frame, its
    timestamp becomes \<^verbatim>\<open>last_video_pts\<close> and, converted to \<^verbatim>\<open>float\<close>,
    \<^verbatim>\<open>delta_time_accumulator\<close>.
\<close>

theorem Seek_resync:
  assumes "IsVideoOpened s \<or> IsAudioOpened s"
    and "IsVideoOpened s \<longrightarrow> VideoQueue_ok (video_fifo s)"
    and "AdjustSeekedPosition_exit fp t (Seek_prepare ps s) = (e, s')"
  shows "Seek fp t (Some ps) s =
           (if e = AssertFailed then Error else Success, Play (StartDecodingThread s')) \<and>
         (IsVideoOpened s \<longrightarrow>
            set (VideoQueue_contents (video_fifo s')) \<subseteq>
              {f \<in> set (video_frames ps). video_accepted fp t s f}) \<and>
         (IsAudioOpened s \<longrightarrow>
            set (AudioQueue_contents (audio_fifo s')) \<subseteq>
              (\<Union>b \<in> {b \<in> set (audio_blocks ps). audio_accepted fp t s b}. set (block_samples b))) \<and>
         (\<exists>consumed. ps = consumed @ demux s' \<and>
            (IsVideoOpened s \<longrightarrow>
               VideoQueue_contents (video_fifo s') =
                 foldl (resync_video (video_accepted fp t s)
                          (VideoQueue_capacity (video_fifo s) - 1))
                   [] (video_outcomes consumed)) \<and>
            (IsAudioOpened s \<and> e \<noteq> AssertFailed \<longrightarrow>
               audio_fifo s' =
                 AudioQueue_push_all
                   (concat (map block_chunks
                      (filter (audio_accepted fp t s) (audio_blocks consumed))))
                   (AudioQueue_clear (audio_fifo s))) \<and>
            (IsAudioOpened s \<and> e \<noteq> AssertFailed \<and> AudioQueue_ok (audio_fifo s) \<and>
             int (length (concat (map block_samples
                    (filter (audio_accepted fp t s) (audio_blocks consumed)))))
               \<le> AudioQueue_capacity (audio_fifo s) \<longrightarrow>
               AudioQueue_contents (audio_fifo s') =
                 concat (map block_samples
                   (filter (audio_accepted fp t s) (audio_blocks consumed)))) \<and>
            (e = BothSeeked \<longrightarrow>
               (IsVideoOpened s \<longrightarrow>
                  (\<exists>f \<in> set (video_frames consumed). video_accepted fp t s f)) \<and>
               (IsAudioOpened s \<longrightarrow>
                  (\<exists>b \<in> set (audio_blocks consumed). audio_accepted fp t s b))) \<and>
            (e = ReadEnded \<longrightarrow>
               demux s' = [] \<and>
               (IsVideoOpened s \<and> (\<forall>f \<in> set (video_frames ps). \<not> video_accepted fp t s f) \<or>
                IsAudioOpened s \<and> (\<forall>b \<in> set (audio_blocks ps). \<not> audio_accepted fp t s b)))) \<and>
         (e = BothSeeked \<and> IsVideoOpened s \<and> \<not> IsAudioOpened s \<longrightarrow>
            VideoQueue_contents (video_fifo s') =
              [hd (filter (video_accepted fp t s) (video_frames ps))] \<and>
            last_video_pts s' =
              CalculateVideoPts fp s (hd (filter (video_accepted fp t s) (video_frames ps))) \<and>
            delta_time_accumulator s' =
              float_of_double fp
                (CalculateVideoPts fp s (hd (filter (video_accepted fp t s) (video_frames ps)))))"
proof -
  let ?sp = "Seek_prepare ps s"
  let ?m = "if IsVideoOpened ?sp then size_t_minus_1 (VideoQueue_capacity (video_fifo ?sp)) else 0"
  let ?vs = "if IsVideoOpened ?sp then False else True"
  let ?as = "if IsAudioOpened ?sp then False else True"
  note pr = Seek_prepare_props
  have st: "same_streams s ?sp" by (rule Seek_prepare_props(1))
  note acc = same_streams_accepted(1,2) [OF st, of fp t] same_streams_accepted(3,4,5) [OF st]
  obtain e1 rest s1 where
    L: "AdjustSeekedPosition_loop fp t ?m ?vs ?as ps ?sp = (e1, rest, s1)"
    by (cases "AdjustSeekedPosition_loop fp t ?m ?vs ?as ps ?sp")
  with assms(3) have e: "e1 = e" and s': "s' = s1\<lparr>demux := rest\<rparr>"
    by (simp_all add: AdjustSeekedPosition_exit_def Let_def pr(2))
  have inv: "IsVideoOpened ?sp \<longrightarrow>
      VideoQueue_ok (video_fifo ?sp) \<and> Suc ?m = VideoQueue_capacity (video_fifo ?sp) \<and>
      VideoQueue_size (video_fifo ?sp) \<le> ?m"
  proof
    assume o: "IsVideoOpened ?sp"
    then have os: "IsVideoOpened s" by (simp add: acc)
    with assms(2) have ok: "VideoQueue_ok (video_fifo s)" by simp
    note cl = VideoQueue_clear_ok [OF ok]
    have vf: "video_fifo ?sp = VideoQueue_clear (video_fifo s)" using os by (rule pr(3))
    have c2: "2 \<le> VideoQueue_capacity (video_fifo ?sp)"
      using cl(1) by (simp add: vf VideoQueue_ok_def VideoQueue_capacity_def)
    have "VideoQueue_capacity (video_fifo ?sp) < 2 ^ LENGTH(16)"
      unfolding VideoQueue_capacity_def by (rule unsigned_less)
    then have "VideoQueue_capacity (video_fifo ?sp) < 2 ^ 64" by simp
    with c2 have m: "size_t_minus_1 (VideoQueue_capacity (video_fifo ?sp))
        = VideoQueue_capacity (video_fifo ?sp) - 1"
      by (intro size_t_minus_1_eq) simp_all
    have "VideoQueue_size (video_fifo ?sp) = 0"
      using VideoQueue_contents_length [of "video_fifo ?sp"] cl(2) by (simp add: vf)
    with o c2 m cl(1) show "VideoQueue_ok (video_fifo ?sp) \<and>
        Suc ?m = VideoQueue_capacity (video_fifo ?sp) \<and> VideoQueue_size (video_fifo ?sp) \<le> ?m"
      by (simp add: vf)
  qed
  from seek_loop_post [OF inv L]
  have p1: "set (VideoQueue_contents (video_fifo s1)) \<subseteq>
        set (VideoQueue_contents (video_fifo ?sp)) \<union>
        {f \<in> set (video_frames ps). video_accepted fp t s f}"
    and p2: "set (AudioQueue_contents (audio_fifo s1)) \<subseteq>
        set (AudioQueue_contents (audio_fifo ?sp)) \<union>
        (\<Union>b \<in> {b \<in> set (audio_blocks ps). audio_accepted fp t s b}. set (block_samples b))"
    unfolding seek_post_def acc by blast+
  have c1: "Seek fp t (Some ps) s =
           (if e = AssertFailed then Error else Success, Play (StartDecodingThread s'))"
    using assms(1,3) by (rule Seek_by_exit)
  have c2: "IsVideoOpened s \<longrightarrow>
            set (VideoQueue_contents (video_fifo s')) \<subseteq>
              {f \<in> set (video_frames ps). video_accepted fp t s f}"
  proof
    assume o: "IsVideoOpened s"
    with assms(2) have "VideoQueue_contents (video_fifo ?sp) = []"
      by (simp add: pr(3) VideoQueue_clear_ok)
    with p1 show "set (VideoQueue_contents (video_fifo s')) \<subseteq>
              {f \<in> set (video_frames ps). video_accepted fp t s f}"
      by (simp add: s')
  qed
  have c3: "IsAudioOpened s \<longrightarrow>
            set (AudioQueue_contents (audio_fifo s')) \<subseteq>
              (\<Union>b \<in> {b \<in> set (audio_blocks ps). audio_accepted fp t s b}. set (block_samples b))"
  proof
    assume o: "IsAudioOpened s"
    then have "AudioQueue_contents (audio_fifo ?sp) = []"
      by (simp add: pr(4) AudioQueue_clear_contents)
    with p2 show "set (AudioQueue_contents (audio_fifo s')) \<subseteq>
              (\<Union>b \<in> {b \<in> set (audio_blocks ps). audio_accepted fp t s b}. set (block_samples b))"
      by (simp add: s')
  qed
  from seek_loop_trace [OF inv L] obtain consumed where
    k: "ps = consumed @ rest" and tr: "seek_trace fp t ?m ?sp ?vs ?as consumed e1 s1"
    and re: "e1 = ReadEnded \<longrightarrow> rest = []"
    by blast
  let ?chunks = "concat (map block_chunks (filter (audio_accepted fp t s) (audio_blocks consumed)))"
  let ?samples = "concat (map block_samples (filter (audio_accepted fp t s) (audio_blocks consumed)))"
  from tr have t1: "IsVideoOpened s \<longrightarrow>
         VideoQueue_contents (video_fifo s1) =
           foldl (resync_video (video_accepted fp t s) ?m) (VideoQueue_contents (video_fifo ?sp))
             (video_outcomes consumed)"
    and t2: "e \<noteq> AssertFailed \<longrightarrow> IsAudioOpened s \<longrightarrow>
            audio_fifo s1 = AudioQueue_push_all ?chunks (audio_fifo ?sp)"
    and t3r: "e \<noteq> AssertFailed \<longrightarrow> (e = BothSeeked) =
           ((?vs \<or> IsVideoOpened s \<and> (\<exists>f \<in> set (video_frames consumed). video_accepted fp t s f)) \<and>
            (?as \<or> IsAudioOpened s \<and> (\<exists>b \<in> set (audio_blocks consumed). audio_accepted fp t s b)))"
    unfolding seek_trace_def acc e by blast+
  have fl: "?vs = (\<not> IsVideoOpened s)" "?as = (\<not> IsAudioOpened s)" by (simp_all add: acc)
  have t3: "e \<noteq> AssertFailed \<longrightarrow> (e = BothSeeked) =
           ((IsVideoOpened s \<longrightarrow> (\<exists>f \<in> set (video_frames consumed). video_accepted fp t s f)) \<and>
            (IsAudioOpened s \<longrightarrow> (\<exists>b \<in> set (audio_blocks consumed). audio_accepted fp t s b)))"
    using t3r unfolding fl by blast
  have d1: "IsVideoOpened s \<longrightarrow>
               VideoQueue_contents (video_fifo s') =
                 foldl (resync_video (video_accepted fp t s)
                          (VideoQueue_capacity (video_fifo s) - 1))
                   [] (video_outcomes consumed)"
  proof
    assume o: "IsVideoOpened s"
    then have osp: "IsVideoOpened ?sp" by (simp add: acc)
    from o assms(2) have ok: "VideoQueue_ok (video_fifo s)" by simp
    have vf: "video_fifo ?sp = VideoQueue_clear (video_fifo s)" using o by (rule pr(3))
    from inv osp have "Suc ?m = VideoQueue_capacity (video_fifo ?sp)" by simp
    then have m: "?m = VideoQueue_capacity (video_fifo s) - 1"
      by (simp add: vf VideoQueue_clear_ok(3) [OF ok])
    have em: "VideoQueue_contents (video_fifo ?sp) = []"
      by (simp add: vf VideoQueue_clear_ok(2) [OF ok])
    from t1 o show "VideoQueue_contents (video_fifo s') =
                 foldl (resync_video (video_accepted fp t s)
                          (VideoQueue_capacity (video_fifo s) - 1))
                   [] (video_outcomes consumed)"
      unfolding m em by (simp add: s')
  qed
  have d2: "IsAudioOpened s \<and> e \<noteq> AssertFailed \<longrightarrow>
               audio_fifo s' = AudioQueue_push_all ?chunks (AudioQueue_clear (audio_fifo s))"
    using t2 by (auto simp: s' pr(4))
  have d3: "IsAudioOpened s \<and> e \<noteq> AssertFailed \<and> AudioQueue_ok (audio_fifo s) \<and>
             int (length ?samples) \<le> AudioQueue_capacity (audio_fifo s) \<longrightarrow>
               AudioQueue_contents (audio_fifo s') = ?samples"
  proof
    assume h: "IsAudioOpened s \<and> e \<noteq> AssertFailed \<and> AudioQueue_ok (audio_fifo s) \<and>
             int (length ?samples) \<le> AudioQueue_capacity (audio_fifo s)"
    then have ok: "AudioQueue_ok (audio_fifo s)" by simp
    note cl = AudioQueue_clear_ok [OF ok]
    have "int (length (concat ?chunks))
        \<le> AudioQueue_capacity (AudioQueue_clear (audio_fifo s))
          - AudioQueue_size (AudioQueue_clear (audio_fifo s))"
      using h by (simp only: concat_block_chunks cl(2,3)) simp
    from AudioQueue_push_all_within_space [OF cl(1) this]
    have "AudioQueue_contents (AudioQueue_push_all ?chunks (AudioQueue_clear (audio_fifo s)))
        = ?samples"
      by (simp only: concat_block_chunks AudioQueue_clear_contents append_Nil)
    with d2 h show "AudioQueue_contents (audio_fifo s') = ?samples" by simp
  qed
  have d4: "e = BothSeeked \<longrightarrow>
               (IsVideoOpened s \<longrightarrow>
                  (\<exists>f \<in> set (video_frames consumed). video_accepted fp t s f)) \<and>
               (IsAudioOpened s \<longrightarrow>
                  (\<exists>b \<in> set (audio_blocks consumed). audio_accepted fp t s b))"
    using t3 by auto
  have d5: "e = ReadEnded \<longrightarrow>
               demux s' = [] \<and>
               (IsVideoOpened s \<and> (\<forall>f \<in> set (video_frames ps). \<not> video_accepted fp t s f) \<or>
                IsAudioOpened s \<and> (\<forall>b \<in> set (audio_blocks ps). \<not> audio_accepted fp t s b))"
  proof
    assume h: "e = ReadEnded"
    with re e have r: "rest = []" by simp
    with k have kc: "consumed = ps" by simp
    have "demux s' = []" by (simp add: s' r)
    moreover from t3 h
    have "IsVideoOpened s \<and> (\<forall>f \<in> set (video_frames ps). \<not> video_accepted fp t s f) \<or>
          IsAudioOpened s \<and> (\<forall>b \<in> set (audio_blocks ps). \<not> audio_accepted fp t s b)"
      unfolding kc by auto
    ultimately show "demux s' = [] \<and>
               (IsVideoOpened s \<and> (\<forall>f \<in> set (video_frames ps). \<not> video_accepted fp t s f) \<or>
                IsAudioOpened s \<and> (\<forall>b \<in> set (audio_blocks ps). \<not> audio_accepted fp t s b))"
      by simp
  qed
  have d0: "ps = consumed @ demux s'" using k by (simp add: s')
  have c5: "e = BothSeeked \<and> IsVideoOpened s \<and> \<not> IsAudioOpened s \<longrightarrow>
            VideoQueue_contents (video_fifo s') =
              [hd (filter (video_accepted fp t s) (video_frames ps))] \<and>
            last_video_pts s' =
              CalculateVideoPts fp s (hd (filter (video_accepted fp t s) (video_frames ps))) \<and>
            delta_time_accumulator s' =
              float_of_double fp
                (CalculateVideoPts fp s (hd (filter (video_accepted fp t s) (video_frames ps))))"
  proof
    assume h: "e = BothSeeked \<and> IsVideoOpened s \<and> \<not> IsAudioOpened s"
    then have o: "IsVideoOpened ?sp" and na: "\<not> IsAudioOpened ?sp" by (simp_all add: acc)
    from inv o have ok: "VideoQueue_ok (video_fifo ?sp)"
      and m: "Suc ?m = VideoQueue_capacity (video_fifo ?sp)" by simp_all
    from h assms(2) have em: "VideoQueue_contents (video_fifo ?sp) = []"
      by (simp add: pr(3) VideoQueue_clear_ok)
    from L h o na
    have l: "AdjustSeekedPosition_loop fp t ?m False True ps ?sp = (BothSeeked, rest, s1)"
      by (simp add: e)
    from seek_loop_video_only [OF o na ok m em l]
    show "VideoQueue_contents (video_fifo s') =
              [hd (filter (video_accepted fp t s) (video_frames ps))] \<and>
            last_video_pts s' =
              CalculateVideoPts fp s (hd (filter (video_accepted fp t s) (video_frames ps))) \<and>
            delta_time_accumulator s' =
              float_of_double fp
                (CalculateVideoPts fp s (hd (filter (video_accepted fp t s) (video_frames ps))))"
      unfolding acc by (simp add: s')
  qed
  from d0 d1 d2 d3 d4 d5 have ex: "\<exists>consumed. ps = consumed @ demux s' \<and>
            (IsVideoOpened s \<longrightarrow>
               VideoQueue_contents (video_fifo s') =
                 foldl (resync_video (video_accepted fp t s)
                          (VideoQueue_capacity (video_fifo s) - 1))
                   [] (video_outcomes consumed)) \<and>
            (IsAudioOpened s \<and> e \<noteq> AssertFailed \<longrightarrow>
               audio_fifo s' =
                 AudioQueue_push_all
                   (concat (map block_chunks
                      (filter (audio_accepted fp t s) (audio_blocks consumed))))
                   (AudioQueue_clear (audio_fifo s))) \<and>
            (IsAudioOpened s \<and> e \<noteq> AssertFailed \<and> AudioQueue_ok (audio_fifo s) \<and>
             int (length (concat (map block_samples
                    (filter (audio_accepted fp t s) (audio_blocks consumed)))))
               \<le> AudioQueue_capacity (audio_fifo s) \<longrightarrow>
               AudioQueue_contents (audio_fifo s') =
                 concat (map block_samples
                   (filter (audio_accepted fp t s) (audio_blocks consumed)))) \<and>
            (e = BothSeeked \<longrightarrow>
               (IsVideoOpened s \<longrightarrow>
                  (\<exists>f \<in> set (video_frames consumed). video_accepted fp t s f)) \<and>
               (IsAudioOpened s \<longrightarrow>
                  (\<exists>b \<in> set (audio_blocks consumed). audio_accepted fp t s b))) \<and>
            (e = ReadEnded \<longrightarrow>
               demux s' = [] \<and>
               (IsVideoOpened s \<and> (\<forall>f \<in> set (video_frames ps). \<not> video_accepted fp t s f) \<or>
                IsAudioOpened s \<and> (\<forall>b \<in> set (audio_blocks ps). \<not> audio_accepted fp t s b)))"
    by (intro exI [of _ consumed] conjI)
  from c1 c2 c3 ex c5 show ?thesis by (intro conjI)
qed


lemmas seek_eval_defs =
  AdjustSeekedPosition_exit_def Seek_prepare_def media_16_def media_starved_def Media_new_def
  vq2_eq Pause_def StopDecodingThread_def IsVideoOpened_def IsAudioOpened_def IsPaused_def
  Let_def VideoQueue_clear_def VideoQueue_capacity_def VideoQueue_size_def size_t_minus_1_def
  AdjustSeekedPosition_loop.simps AdjustSeekedPosition_video_def VideoQueue_write_back_def
  VideoQueue_push_def VideoQueue_pop_def CalculateVideoPts_def frame_at_def
  av_frame_unref_def av_frame_alloc_def VideoQueue_front_def exact_arith_def int64_mul_def

lemmas seek_eval_audio_defs =
  media_both_def aq1000_eq block_at_def AdjustSeekedPosition_audio_def CalculateAudioPts_def
  AudioQueue_clear_def AudioQueue_push_def av_audio_fifo_write_def av_audio_fifo_space_def
  av_audio_fifo_size_def av_audio_fifo_drain_def

lemma packets_before_target_exit:
  "AdjustSeekedPosition_exit exact_arith 1 (Seek_prepare packets_before_target media_16) =
     (ReadEnded,
      (Seek_prepare packets_before_target media_16)
        \<lparr>video_fifo := VideoQueue_write_back (frame_at 0) vq2, demux := []\<rparr>)"
  by (simp add: packets_before_target_def seek_eval_defs)

lemma packets_video_first_exit:
  "fst (AdjustSeekedPosition_exit exact_arith 1 (Seek_prepare packets_video_first media_both))
     = BothSeeked \<and>
   VideoQueue_contents
     (video_fifo (snd (AdjustSeekedPosition_exit exact_arith 1
                         (Seek_prepare packets_video_first media_both)))) = [frame_at 17]"
  by (simp add: packets_video_first_def seek_eval_defs seek_eval_audio_defs
      VideoQueue_contents_def)

lemma packets_audio_between_exit:
  "fst (AdjustSeekedPosition_exit exact_arith 1 (Seek_prepare packets_audio_between media_both))
     = BothSeeked \<and>
   demux (snd (AdjustSeekedPosition_exit exact_arith 1
                 (Seek_prepare packets_audio_between media_both))) = [] \<and>
   last_video_pts (snd (AdjustSeekedPosition_exit exact_arith 1
                          (Seek_prepare packets_audio_between media_both))) = 5 / 4 \<and>
   delta_time_accumulator (snd (AdjustSeekedPosition_exit exact_arith 1
                                  (Seek_prepare packets_audio_between media_both))) = 5 / 4 \<and>
   audio_time (snd (AdjustSeekedPosition_exit exact_arith 1
                      (Seek_prepare packets_audio_between media_both))) = 1 \<and>
   audio_frames_consumed (snd (AdjustSeekedPosition_exit exact_arith 1
                                 (Seek_prepare packets_audio_between media_both))) = 48000"
  by (simp add: packets_audio_between_def seek_eval_defs seek_eval_audio_defs)

lemma media_both_open:
  "IsVideoOpened media_both \<and> IsAudioOpened media_both \<and>
   VideoQueue_ok (video_fifo media_both) \<and> AudioQueue_ok (audio_fifo media_both) \<and>
   VideoQueue_capacity (video_fifo media_both) = 2 \<and>
   AudioQueue_capacity (audio_fifo media_both) = 1000"
  by (simp add: media_both_def media_16_def media_starved_def Media_new_def IsVideoOpened_def
      IsAudioOpened_def vq2_eq VideoQueue_ok_def aq1000_eq AudioQueue_ok_def
      VideoQueue_capacity_def AudioQueue_capacity_def av_audio_fifo_space_def
      av_audio_fifo_size_def)

lemma media_16_open:
  "IsVideoOpened media_16 \<and> \<not> IsAudioOpened media_16 \<and> VideoQueue_ok (video_fifo media_16)"
  by (simp add: media_16_def media_starved_def Media_new_def IsVideoOpened_def
      IsAudioOpened_def vq2_eq VideoQueue_ok_def)

text \<open>
  C7, as stated, fails in two ways, shown on values on which the arithmetic is exact
  (time base 1/16, target 1 second). First, the loop also ends when \<^verbatim>\<open>av_read_frame\<close>
  reports the end of the file: when the only packet left for the video-only object
  decodes to the frame at 0 seconds, the loop is left at the end of the file,
  \<^verbatim>\<open>Seek\<close> returns success, the open video stream has produced no frame at or
  after the target, and the queue is empty. Second, the first accepted unit need not be
  retained: with both streams open and a video queue of capacity 2, the frames at 1 and
  at 1.0625 seconds are both accepted before the first audio frame arrives; the second
  evicts the first, and the loop ends with the queue holding the frame at 1.0625 seconds
  only.
\<close>

theorem Seek_resync_without_first_accepted_unit:
  "IsVideoOpened media_16 \<and>
   fst (AdjustSeekedPosition_exit exact_arith 1 (Seek_prepare packets_before_target media_16))
     = ReadEnded \<and>
   fst (Seek exact_arith 1 (Some packets_before_target) media_16) = Success \<and>
   filter (video_accepted exact_arith 1 media_16) (video_frames packets_before_target) = [] \<and>
   VideoQueue_size
     (video_fifo (snd (Seek exact_arith 1 (Some packets_before_target) media_16))) = 0 \<and>
   IsVideoOpened media_both \<and> IsAudioOpened media_both \<and>
   fst (AdjustSeekedPosition_exit exact_arith 1 (Seek_prepare packets_video_first media_both))
     = BothSeeked \<and>
   fst (Seek exact_arith 1 (Some packets_video_first) media_both) = Success \<and>
   filter (video_accepted exact_arith 1 media_both) (video_frames packets_video_first)
     = [frame_at 16, frame_at 17] \<and>
   VideoQueue_contents
     (video_fifo (snd (Seek exact_arith 1 (Some packets_video_first) media_both)))
     = [frame_at 17]"
proof -
  let ?x = "AdjustSeekedPosition_exit exact_arith 1 (Seek_prepare packets_video_first media_both)"
  have o: "IsVideoOpened media_16 \<or> IsAudioOpened media_16"
    using media_16_open by simp
  have 1: "filter (video_accepted exact_arith 1 media_16) (video_frames packets_before_target) = []"
    by (simp add: packets_before_target_def video_accepted_def CalculateVideoPts_def
        frame_at_def media_16_def exact_arith_def int64_mul_def)
  have 2: "VideoQueue_size (VideoQueue_write_back (frame_at 0) vq2) = 0"
    by (simp add: vq2_eq VideoQueue_size_def VideoQueue_write_back_def)
  have a: "IsVideoOpened media_16 \<and>
      fst (AdjustSeekedPosition_exit exact_arith 1 (Seek_prepare packets_before_target media_16))
        = ReadEnded \<and>
      fst (Seek exact_arith 1 (Some packets_before_target) media_16) = Success \<and>
      filter (video_accepted exact_arith 1 media_16) (video_frames packets_before_target) = [] \<and>
      VideoQueue_size
        (video_fifo (snd (Seek exact_arith 1 (Some packets_before_target) media_16))) = 0"
    using 1 2 Seek_by_exit [OF o packets_before_target_exit] packets_before_target_exit
      media_16_open
    by (simp add: Play_def StartDecodingThread_def IsVideoOpened_def IsAudioOpened_def
        IsPaused_def)
  have ob: "IsVideoOpened media_both \<or> IsAudioOpened media_both"
    using media_both_open by simp
  have ex: "?x = (BothSeeked, snd ?x)"
    using packets_video_first_exit by (cases ?x) simp
  have 3: "filter (video_accepted exact_arith 1 media_both) (video_frames packets_video_first)
     = [frame_at 16, frame_at 17]"
    by (simp add: packets_video_first_def video_accepted_def CalculateVideoPts_def
        frame_at_def media_both_def media_16_def exact_arith_def int64_mul_def)
  have b: "IsVideoOpened media_both \<and> IsAudioOpened media_both \<and>
      fst ?x = BothSeeked \<and>
      fst (Seek exact_arith 1 (Some packets_video_first) media_both) = Success \<and>
      filter (video_accepted exact_arith 1 media_both) (video_frames packets_video_first)
        = [frame_at 16, frame_at 17] \<and>
      VideoQueue_contents
        (video_fifo (snd (Seek exact_arith 1 (Some packets_video_first) media_both)))
        = [frame_at 17]"
    using 3 Seek_by_exit [OF ob ex] packets_video_first_exit media_both_open
    by (simp add: Play_def StartDecodingThread_def IsVideoOpened_def IsAudioOpened_def
        IsPaused_def)
  from a b show ?thesis by (simp only: simp_thms)
qed

theorem Seek_resync_witness:
  "(IsVideoOpened media_both \<or> IsAudioOpened media_both) \<and>
   VideoQueue_ok (video_fifo media_both) \<and>
   fst (AdjustSeekedPosition_exit exact_arith 1 (Seek_prepare packets_audio_between media_both))
     = BothSeeked \<and>
   fst (Seek exact_arith 1 (Some packets_audio_between) media_both) = Success \<and>
   VideoQueue_contents
     (video_fifo (snd (AdjustSeekedPosition_exit exact_arith 1
                         (Seek_prepare packets_audio_between media_both))))
     = [frame_at 20] \<and>
   AudioQueue_contents
     (audio_fifo (snd (AdjustSeekedPosition_exit exact_arith 1
                         (Seek_prepare packets_audio_between media_both))))
     = [1, 2, 3, 4] \<and>
   last_video_pts (snd (AdjustSeekedPosition_exit exact_arith 1
                          (Seek_prepare packets_audio_between media_both))) = 5 / 4"
proof -
  let ?x = "AdjustSeekedPosition_exit exact_arith 1 (Seek_prepare packets_audio_between media_both)"
  let ?va = "video_accepted exact_arith 1 media_both"
  let ?aa = "audio_accepted exact_arith 1 media_both"
  note mb = media_both_open
  note ev = packets_audio_between_exit
  have o: "IsVideoOpened media_both \<or> IsAudioOpened media_both" using mb by simp
  have ok': "IsVideoOpened media_both \<longrightarrow> VideoQueue_ok (video_fifo media_both)"
    using mb by simp
  have ex: "?x = (BothSeeked, snd ?x)" using ev by (cases ?x) simp
  from Seek_resync [OF o ok' ex] obtain consumed where
    sk: "Seek exact_arith 1 (Some packets_audio_between) media_both =
           (if BothSeeked = AssertFailed then Error else Success,
            Play (StartDecodingThread (snd ?x)))"
    and k: "packets_audio_between = consumed @ demux (snd ?x)"
    and v: "IsVideoOpened media_both \<longrightarrow>
              VideoQueue_contents (video_fifo (snd ?x)) =
                foldl (resync_video ?va (VideoQueue_capacity (video_fifo media_both) - 1))
                  [] (video_outcomes consumed)"
    and a: "IsAudioOpened media_both \<and> BothSeeked \<noteq> AssertFailed \<and>
            AudioQueue_ok (audio_fifo media_both) \<and>
            int (length (concat (map block_samples (filter ?aa (audio_blocks consumed)))))
              \<le> AudioQueue_capacity (audio_fifo media_both) \<longrightarrow>
            AudioQueue_contents (audio_fifo (snd ?x)) =
              concat (map block_samples (filter ?aa (audio_blocks consumed)))"
    by blast
  from k ev have c: "consumed = packets_audio_between" by simp
  have va: "foldl (resync_video ?va (VideoQueue_capacity (video_fifo media_both) - 1)) []
              (video_outcomes packets_audio_between) = [frame_at 20]"
    using mb
    by (simp add: packets_audio_between_def resync_video_def video_accepted_def
        CalculateVideoPts_def frame_at_def media_both_def media_16_def exact_arith_def
        int64_mul_def)
  have aa: "concat (map block_samples (filter ?aa (audio_blocks packets_audio_between)))
      = [1, 2, 3, 4]"
    by (simp add: packets_audio_between_def audio_accepted_def CalculateAudioPts_def
        block_at_def frame_at_def media_both_def media_16_def exact_arith_def int64_mul_def
        block_samples_def samples_of_def)
  from v mb have 1: "VideoQueue_contents (video_fifo (snd ?x)) = [frame_at 20]"
    unfolding c va by simp
  from a mb have 2: "AudioQueue_contents (audio_fifo (snd ?x)) = [1, 2, 3, 4]"
    unfolding c aa by simp
  from sk have 3: "fst (Seek exact_arith 1 (Some packets_audio_between) media_both) = Success"
    by simp
  from o mb ev 1 2 3 show ?thesis by simp
qed

end
